theory Spec2Isabelle
  imports Complex_Main "HOL-Library.Word"
begin

section \<open>JavaScript values and built-ins the fastboot client calls\<close>

text \<open>
  A JavaScript string is a sequence of UTF-16 code units and \<open>length\<close> counts code units;
  a byte buffer (\<open>Uint8Array\<close>, \<open>DataView\<close>) is a sequence of octets. String literals of
  the source are ASCII and are written \<open>js ''...''\<close>.
\<close>

type_synonym byte = "8 word"
type_synonym bytes = "byte list"
type_synonym code_unit = "16 word"
type_synonym jsstring = "code_unit list"

definition js :: "string \<Rightarrow> jsstring" where
  "js s = map of_char s"

text \<open>\<open>String.prototype.substring(start, end)\<close> and \<open>substring(start)\<close>, non-negative arguments.\<close>

definition substring :: "jsstring \<Rightarrow> nat \<Rightarrow> nat \<Rightarrow> jsstring" where
  "substring s start fin =
     (let len = length s; a = min start len; b = min fin len;
          lo = min a b; hi = max a b
      in take (hi - lo) (drop lo s))"

definition substring_from :: "jsstring \<Rightarrow> nat \<Rightarrow> jsstring" where
  "substring_from s start = drop (min start (length s)) s"

text \<open>
  \<open>new TextEncoder().encode(s)\<close>: the string is read as scalar values (a surrogate pair is
  one supplementary code point, a lone surrogate becomes U+FFFD) and each is written in
  UTF-8.
\<close>

definition is_high_surrogate :: "code_unit \<Rightarrow> bool" where
  "is_high_surrogate u = (55296 \<le> unat u \<and> unat u \<le> 56319)"

definition is_low_surrogate :: "code_unit \<Rightarrow> bool" where
  "is_low_surrogate u = (56320 \<le> unat u \<and> unat u \<le> 57343)"

definition lone_unit :: "code_unit \<Rightarrow> nat" where
  "lone_unit u = (if is_high_surrogate u \<or> is_low_surrogate u then 65533 else unat u)"

fun scalar_values :: "jsstring \<Rightarrow> nat list" where
  "scalar_values [] = []"
| "scalar_values [u] = [lone_unit u]"
| "scalar_values (u # v # us) =
     (if is_high_surrogate u \<and> is_low_surrogate v
      then (65536 + (unat u - 55296) * 1024 + (unat v - 56320)) # scalar_values us
      else lone_unit u # scalar_values (v # us))"

definition utf8_bytes :: "nat \<Rightarrow> bytes" where
  "utf8_bytes c =
     (if c < 128 then [of_nat c]
      else if c < 2048 then [of_nat (192 + c div 64), of_nat (128 + c mod 64)]
      else if c < 65536 then
        [of_nat (224 + c div 4096), of_nat (128 + c div 64 mod 64), of_nat (128 + c mod 64)]
      else
        [of_nat (240 + c div 262144), of_nat (128 + c div 4096 mod 64),
         of_nat (128 + c div 64 mod 64), of_nat (128 + c mod 64)])"

definition TextEncoder_encode :: "jsstring \<Rightarrow> bytes" where
  "TextEncoder_encode s = concat (map utf8_bytes (scalar_values s))"

text \<open>
  \<open>new TextDecoder().decode(data)\<close>: the UTF-8 decoder of the Encoding standard in its
  default mode (malformed input becomes U+FFFD, a leading byte order mark is dropped).
  The decoder state is \<open>None\<close> when no bytes are needed, else the code point so far, the
  bytes needed, the bytes seen and the bounds of the next byte.
\<close>

datatype utf8_lead = Emit nat | Malformed | Need nat nat nat nat

definition utf8_lead_byte :: "byte \<Rightarrow> utf8_lead" where
  "utf8_lead_byte b =
     (let n = unat b in
      if n \<le> 127 then Emit n
      else if 194 \<le> n \<and> n \<le> 223 then Need (n mod 32) 1 128 191
      else if 224 \<le> n \<and> n \<le> 239 then
        Need (n mod 16) 2 (if n = 224 then 160 else 128) (if n = 237 then 159 else 191)
      else if 240 \<le> n \<and> n \<le> 244 then
        Need (n mod 8) 3 (if n = 240 then 144 else 128) (if n = 244 then 143 else 191)
      else Malformed)"

type_synonym utf8_state = "(nat \<times> nat \<times> nat \<times> nat \<times> nat) option"

definition utf8_start :: "byte \<Rightarrow> nat list \<times> utf8_state" where
  "utf8_start b =
     (case utf8_lead_byte b of
        Emit c \<Rightarrow> ([c], None)
      | Malformed \<Rightarrow> ([65533], None)
      | Need cp needed lo hi \<Rightarrow> ([], Some (cp, needed, 0, lo, hi)))"

fun utf8_handler :: "utf8_state \<Rightarrow> byte \<Rightarrow> nat list \<times> utf8_state" where
  "utf8_handler None b = utf8_start b"
| "utf8_handler (Some (cp, needed, seen, lo, hi)) b =
     (let n = unat b in
      if n < lo \<or> hi < n then
        (case utf8_start b of (out, st) \<Rightarrow> (65533 # out, st))
      else
        (let cp' = cp * 64 + n mod 64 in
         if seen + 1 \<noteq> needed then ([], Some (cp', needed, seen + 1, 128, 191))
         else ([cp'], None)))"

fun utf8_decode_from :: "utf8_state \<Rightarrow> bytes \<Rightarrow> nat list" where
  "utf8_decode_from st [] = (case st of None \<Rightarrow> [] | Some _ \<Rightarrow> [65533])"
| "utf8_decode_from st (b # bs) =
     (case utf8_handler st b of (out, st') \<Rightarrow> out @ utf8_decode_from st' bs)"

definition utf16_units :: "nat \<Rightarrow> jsstring" where
  "utf16_units c =
     (if c < 65536 then [of_nat c]
      else [of_nat (55296 + (c - 65536) div 1024), of_nat (56320 + (c - 65536) mod 1024)])"

definition strip_bom :: "nat list \<Rightarrow> nat list" where
  "strip_bom cps = (case cps of [] \<Rightarrow> [] | c # rest \<Rightarrow> if c = 65279 then rest else cps)"

definition TextDecoder_decode :: "bytes \<Rightarrow> jsstring" where
  "TextDecoder_decode data = concat (map utf16_units (strip_bom (utf8_decode_from None data)))"

text \<open>\<open>ArrayBuffer.prototype.slice(begin, end)\<close> (and the typed array's), non-negative arguments.\<close>

definition slice :: "bytes \<Rightarrow> nat \<Rightarrow> nat \<Rightarrow> bytes" where
  "slice buffer start fin =
     (let len = length buffer; first = min start len; final = min fin len
      in take (final - first) (drop first buffer))"

section \<open>Errors, the USB device and the client object\<close>

datatype js_error =
    UsbError string
  | FastbootError jsstring jsstring
  | RangeError
  | TypeError
  | DOMException string

text \<open>
  An awaited call returns, throws, or never settles (\<open>Pending\<close>: the device has nothing
  more to say and the promise stays open).
\<close>

datatype 'a completion = Return 'a | Throw js_error | Pending

datatype ep_direction = DirIn | DirOut
datatype ep_type = Bulk | Interrupt | Isochronous

record usb_endpoint =
  endpointNumber :: nat
  direction :: ep_direction
  transferType :: ep_type

record usb_alternate =
  endpoints :: "usb_endpoint list"

record usb_interface =
  alternates :: "usb_alternate list"

record usb_configuration =
  interfaces :: "usb_interface list"

text \<open>
  The WebUSB device as the client sees it: its descriptors, and what each call on it will
  answer. \<open>inQueue\<close> holds the outcomes of the coming \<open>transferIn\<close> calls (a rejection or
  the packet's bytes), \<open>outFaults\<close> the outcomes of the coming \<open>transferOut\<close> calls
  (\<open>Some e\<close> rejects with \<open>e\<close>; \<open>None\<close>, or no entry left, resolves).
\<close>

record usb_device =
  configurations :: "usb_configuration list"
  openResult :: "js_error option"
  resetResult :: "js_error option"
  selectConfigurationResult :: "js_error option"
  claimInterfaceResult :: "js_error option"
  inQueue :: "(js_error + bytes) list"
  outFaults :: "js_error option list"

text \<open>
  What the client does to the outside, in order: every \<open>transferOut\<close> call with its
  endpoint, its data and its outcome, and every \<open>onProgress\<close> call with its argument.
  The progress fraction is the exact quotient; the source computes its nearest double.
\<close>

datatype effect = TransferOut "nat option" bytes "js_error option" | Progress rat

text \<open>
  The \<open>FastbootDevice\<close> object (its field \<open>_registeredUsbListener\<close> is written without the
  underscore), with the effects it has caused so far.
\<close>

record fastboot_device =
  device :: "usb_device option"
  epIn :: "nat option"
  epOut :: "nat option"
  registeredUsbListener :: bool
  effects :: "effect list"

definition BULK_TRANSFER_SIZE :: nat where
  "BULK_TRANSFER_SIZE = 16384"

definition constructor :: fastboot_device where
  "constructor = \<lparr>device = None, epIn = None, epOut = None,
     registeredUsbListener = False, effects = []\<rparr>"

text \<open>\<open>this.device.transferIn(endpoint, length)\<close> and \<open>this.device.transferOut(endpoint, data)\<close>.\<close>

definition transferIn ::
  "nat option \<Rightarrow> nat \<Rightarrow> fastboot_device \<Rightarrow> bytes completion \<times> fastboot_device" where
  "transferIn ep len fd =
     (case device fd of
        None \<Rightarrow> (Throw TypeError, fd)
      | Some d \<Rightarrow>
          (case inQueue d of
             [] \<Rightarrow> (Pending, fd)
           | r # rest \<Rightarrow>
               ((case r of Inl e \<Rightarrow> Throw e | Inr data \<Rightarrow> Return data),
                fd\<lparr>device := Some (d\<lparr>inQueue := rest\<rparr>)\<rparr>)))"

definition transferOut ::
  "nat option \<Rightarrow> bytes \<Rightarrow> fastboot_device \<Rightarrow> unit completion \<times> fastboot_device" where
  "transferOut ep data fd =
     (case device fd of
        None \<Rightarrow> (Throw TypeError, fd)
      | Some d \<Rightarrow>
          (case outFaults d of
             [] \<Rightarrow> (Return (), fd\<lparr>effects := effects fd @ [TransferOut ep data None]\<rparr>)
           | r # rest \<Rightarrow>
               ((case r of None \<Rightarrow> Return () | Some e \<Rightarrow> Throw e),
                fd\<lparr>device := Some (d\<lparr>outFaults := rest\<rparr>),
                   effects := effects fd @ [TransferOut ep data r]\<rparr>)))"

definition onProgress :: "rat \<Rightarrow> fastboot_device \<Rightarrow> fastboot_device" where
  "onProgress v fd = fd\<lparr>effects := effects fd @ [Progress v]\<rparr>"

section \<open>readResponse\<close>

record response =
  text' :: jsstring
  dataSize :: "jsstring option"

text \<open>
  The \<open>do ... while (respStatus === "INFO")\<close> loop: one packet is read and handled, then
  the loop goes on exactly when its status was INFO.
\<close>

function readResponse_loop ::
  "response \<Rightarrow> fastboot_device \<Rightarrow> response completion \<times> fastboot_device" where
  "readResponse_loop returnData fd =
     (case transferIn (epIn fd) 64 fd of
        (Throw e, fd') \<Rightarrow> (Throw e, fd')
      | (Pending, fd') \<Rightarrow> (Pending, fd')
      | (Return data, fd') \<Rightarrow>
          (let resp = TextDecoder_decode data;
               respStatus = substring resp 0 4;
               respMessage = substring_from resp 4
           in if respStatus = js ''OKAY'' then
                (Return (returnData\<lparr>text' := text' returnData @ respMessage\<rparr>), fd')
              else if respStatus = js ''INFO'' then
                readResponse_loop
                  (returnData\<lparr>text' := text' returnData @ respMessage @ js ''\<newline>''\<rparr>) fd'
              else if respStatus = js ''DATA'' then
                (Return (returnData\<lparr>dataSize := Some respMessage\<rparr>), fd')
              else (Throw (FastbootError respStatus respMessage), fd')))"
  by pat_completeness auto

definition pending_packets :: "fastboot_device \<Rightarrow> nat" where
  "pending_packets fd = (case device fd of None \<Rightarrow> 0 | Some d \<Rightarrow> length (inQueue d))"

termination readResponse_loop
  by (relation "measure (\<lambda>(returnData, fd). pending_packets fd)")
     (auto simp: transferIn_def pending_packets_def
           split: option.splits list.splits sum.splits)

definition readResponse :: "fastboot_device \<Rightarrow> response completion \<times> fastboot_device" where
  "readResponse fd = readResponse_loop \<lparr>text' = [], dataSize = None\<rparr> fd"

section \<open>runCommand\<close>

definition runCommand ::
  "jsstring \<Rightarrow> fastboot_device \<Rightarrow> response completion \<times> fastboot_device" where
  "runCommand command fd =
     (if length command > 64 then (Throw RangeError, fd)
      else
        (let cmdPacket = TextEncoder_encode command
         in case transferOut (epOut fd) cmdPacket fd of
              (Return _, fd') \<Rightarrow> readResponse fd'
            | (Throw e, fd') \<Rightarrow> (Throw e, fd')
            | (Pending, fd') \<Rightarrow> (Pending, fd')))"

section \<open>sendRawPayload\<close>

text \<open>
  The \<open>while (remainingBytes > 0)\<close> loop with its variables \<open>i\<close> and \<open>remainingBytes\<close>.
  Nothing in the loop itself bounds it (an empty chunk would leave \<open>remainingBytes\<close>
  unchanged), so not returning is the value \<open>None\<close>; that the loop returns from its
  initial state is a theorem below. The callback \<open>onProgress\<close> is the one that records
  its argument. From the initial state the body runs only on a buffer that is not empty,
  so the fraction divides by a positive length.
\<close>

partial_function (option) sendRawPayload_loop ::
  "bytes \<Rightarrow> nat \<Rightarrow> int \<Rightarrow> fastboot_device \<Rightarrow> (unit completion \<times> fastboot_device) option" where
  "sendRawPayload_loop buffer i remainingBytes fd =
     (if remainingBytes > 0 then
        (let chunk = slice buffer (i * BULK_TRANSFER_SIZE) ((i + 1) * BULK_TRANSFER_SIZE);
             fd1 = onProgress
                     (of_int (int (length buffer) - remainingBytes) / of_nat (length buffer)) fd
         in case transferOut (epOut fd1) chunk fd1 of
              (Return _, fd2) \<Rightarrow>
                sendRawPayload_loop buffer (i + 1) (remainingBytes - int (length chunk)) fd2
            | (Throw e, fd2) \<Rightarrow> Some (Throw e, fd2)
            | (Pending, fd2) \<Rightarrow> Some (Pending, fd2))
      else Some (Return (), fd))"

declare sendRawPayload_loop.simps [code]

definition sendRawPayload ::
  "bytes \<Rightarrow> fastboot_device \<Rightarrow> (unit completion \<times> fastboot_device) option" where
  "sendRawPayload buffer fd =
     (case sendRawPayload_loop buffer 0 (int (length buffer)) fd of
        None \<Rightarrow> None
      | Some (Return _, fd') \<Rightarrow> Some (Return (), onProgress 1 fd')
      | Some (Throw e, fd') \<Rightarrow> Some (Throw e, fd')
      | Some (Pending, fd') \<Rightarrow> Some (Pending, fd'))"

section \<open>Endpoint discovery and connection\<close>

text \<open>
  \<open>this.device.configurations[0].interfaces[0].alternates[0]\<close>; indexing an empty array
  gives \<open>undefined\<close>, and the next property read on it is a TypeError.
\<close>

definition first_alternate :: "usb_device \<Rightarrow> usb_alternate option" where
  "first_alternate d =
     (case configurations d of
        [] \<Rightarrow> None
      | c # _ \<Rightarrow>
          (case interfaces c of
             [] \<Rightarrow> None
           | i # _ \<Rightarrow> (case alternates i of [] \<Rightarrow> None | a # _ \<Rightarrow> Some a)))"

text \<open>The \<open>for (let endpoint of ife.endpoints)\<close> loop.\<close>

fun scanEndpoints ::
  "usb_endpoint list \<Rightarrow> fastboot_device \<Rightarrow> unit completion \<times> fastboot_device" where
  "scanEndpoints [] fd = (Return (), fd)"
| "scanEndpoints (endpoint # rest) fd =
     (if transferType endpoint \<noteq> Bulk then scanEndpoints rest fd
      else if direction endpoint = DirIn then
        (if epIn fd \<noteq> None then
           (Throw (UsbError ''Interface has multiple IN endpoints''), fd)
         else scanEndpoints rest (fd\<lparr>epIn := Some (endpointNumber endpoint)\<rparr>))
      else if direction endpoint = DirOut then
        (if epOut fd \<noteq> None then
           (Throw (UsbError ''Interface has multiple OUT endpoints''), fd)
         else scanEndpoints rest (fd\<lparr>epOut := Some (endpointNumber endpoint)\<rparr>))
      else scanEndpoints rest fd)"

text \<open>
  The \<open>try\<close> block: \<open>open()\<close>, \<open>reset()\<close> with its failure swallowed,
  \<open>selectConfiguration(1)\<close>, \<open>claimInterface(0)\<close>; the result is the error caught, if any.
\<close>

definition openAndClaim :: "usb_device \<Rightarrow> js_error option" where
  "openAndClaim d =
     (case openResult d of
        Some e \<Rightarrow> Some e
      | None \<Rightarrow>
          (case resetResult d of
             _ \<Rightarrow>
               (case selectConfigurationResult d of
                  Some e \<Rightarrow> Some e
                | None \<Rightarrow> claimInterfaceResult d)))"

text \<open>\<open>_validateAndConnectDevice(rethrowErrors)\<close>, written without the underscore.\<close>

definition validateAndConnectDevice ::
  "bool \<Rightarrow> fastboot_device \<Rightarrow> unit completion \<times> fastboot_device" where
  "validateAndConnectDevice rethrowErrors fd0 =
     (let fd = fd0\<lparr>epIn := None, epOut := None\<rparr>
      in case device fd of
           None \<Rightarrow> (Throw TypeError, fd)
         | Some d \<Rightarrow>
             (case first_alternate d of
                None \<Rightarrow> (Throw TypeError, fd)
              | Some ife \<Rightarrow>
                  (case scanEndpoints (endpoints ife) fd of
                     (Return _, fd1) \<Rightarrow>
                       if epIn fd1 = None \<or> epOut fd1 = None then
                         (Throw (UsbError ''Could not find the required IN and OUT endpoints''),
                          fd1)
                       else
                         (case openAndClaim d of
                            None \<Rightarrow> (Return (), fd1)
                          | Some e \<Rightarrow>
                              if rethrowErrors then (Throw e, fd1) else (Return (), fd1))
                   | (Throw e, fd1) \<Rightarrow> (Throw e, fd1)
                   | (Pending, fd1) \<Rightarrow> (Pending, fd1))))"

section \<open>The download negotiation of unlockBootloader\<close>

text \<open>
  \<open>Number.prototype.toString(16)\<close> and the decimal \<open>toString()\<close> of a non-negative
  integer, \<open>padStart(n, fill)\<close> with a one-character fill, and \<open>parseInt(s, 16)\<close>: leading
  white space is skipped, then a sign, then \<open>0x\<close> or \<open>0X\<close>; the longest run of hex digits
  is the value, whatever follows it is ignored, and no digit at all is \<open>NaN\<close> (\<open>None\<close>).
\<close>

definition hex_digit :: "nat \<Rightarrow> code_unit" where
  "hex_digit d = (if d < 10 then of_nat (48 + d) else of_nat (87 + d))"

fun toString16 :: "nat \<Rightarrow> jsstring" where
  "toString16 n = (if n < 16 then [hex_digit n] else toString16 (n div 16) @ [hex_digit (n mod 16)])"

fun toString10 :: "nat \<Rightarrow> jsstring" where
  "toString10 n = (if n < 10 then [of_nat (48 + n)] else toString10 (n div 10) @ [of_nat (48 + n mod 10)])"

definition padStart :: "jsstring \<Rightarrow> nat \<Rightarrow> code_unit \<Rightarrow> jsstring" where
  "padStart s n fill = replicate (n - length s) fill @ s"

definition is_white_space :: "code_unit \<Rightarrow> bool" where
  "is_white_space u =
     (unat u \<in> {9, 10, 11, 12, 13, 32, 160, 5760, 8232, 8233, 8239, 8287, 12288, 65279}
      \<or> (8192 \<le> unat u \<and> unat u \<le> 8202))"

definition is_hex_digit :: "code_unit \<Rightarrow> bool" where
  "is_hex_digit u =
     ((48 \<le> unat u \<and> unat u \<le> 57) \<or> (97 \<le> unat u \<and> unat u \<le> 102)
      \<or> (65 \<le> unat u \<and> unat u \<le> 70))"

definition hex_value :: "code_unit \<Rightarrow> nat" where
  "hex_value u =
     (if unat u \<le> 57 then unat u - 48 else if 97 \<le> unat u then unat u - 87 else unat u - 55)"

definition parseInt16 :: "jsstring \<Rightarrow> int option" where
  "parseInt16 str =
     (let s = dropWhile is_white_space str;
          sign = (if s \<noteq> [] \<and> hd s = of_char CHR ''-'' then - 1 else 1 :: int);
          s1 = (if s \<noteq> [] \<and> (hd s = of_char CHR ''+'' \<or> hd s = of_char CHR ''-'')
                then tl s else s);
          s2 = (if take 2 s1 = js ''0x'' \<or> take 2 s1 = js ''0X'' then drop 2 s1 else s1);
          z = takeWhile is_hex_digit s2
      in if z = [] then None
         else Some (sign * int (foldl (\<lambda>acc u. acc * 16 + hex_value u) 0 z)))"

text \<open>Sequencing of awaited calls: the next step runs when the call returned.\<close>

definition and_then ::
  "('a completion \<times> fastboot_device) option \<Rightarrow>
   ('a \<Rightarrow> fastboot_device \<Rightarrow> ('b completion \<times> fastboot_device) option) \<Rightarrow>
   ('b completion \<times> fastboot_device) option" where
  "and_then r k =
     (case r of
        None \<Rightarrow> None
      | Some (Return x, fd) \<Rightarrow> k x fd
      | Some (Throw e, fd) \<Rightarrow> Some (Throw e, fd)
      | Some (Pending, fd) \<Rightarrow> Some (Pending, fd))"

text \<open>
  Lines 45 to 78 of \<open>unlockBootloader\<close>: the rest of its \<open>try\<close> block once \<open>buffer\<close>
  holds the bytes to send (the signature, which the signer outside this client
  computes). What it throws is caught and logged by the \<open>catch\<close> of line 79. The
  mismatch message reads the misspelt property \<open>buffer.bytelength\<close>, which is \<open>undefined\<close>.
\<close>

definition unlockBootloader_download ::
  "bytes \<Rightarrow> fastboot_device \<Rightarrow> (unit completion \<times> fastboot_device) option" where
  "unlockBootloader_download buffer fd =
     (let xferHex = padStart (toString16 (length buffer)) 8 (of_char CHR ''0'')
      in if length xferHex \<noteq> 8 then
           Some (Throw (FastbootError (js ''FAIL'')
                   (js ''Transfer size overflow: '' @ xferHex @ js '' is more than 8 digits'')),
                 fd)
         else
           and_then (Some (runCommand (js ''download:'' @ xferHex) fd))
             (\<lambda>downloadResp fd1.
                case dataSize downloadResp of
                  None \<Rightarrow>
                    Some (Throw (FastbootError (js ''FAIL'')
                            (js ''Unexpected response to download command: ''
                             @ text' downloadResp)),
                          fd1)
                | Some hex \<Rightarrow>
                  (let downloadSize = parseInt16 hex
                   in if downloadSize \<noteq> Some (int (length buffer)) then
                        Some (Throw (FastbootError (js ''FAIL'')
                                (js ''Bootloader wants '' @ toString10 (length buffer)
                                 @ js '' bytes, requested to send undefined bytes'')),
                              fd1)
                      else
                        and_then (sendRawPayload buffer fd1)
                          (\<lambda>_ fd2.
                             and_then (Some (readResponse fd2))
                               (\<lambda>_ fd3.
                                  and_then
                                    (Some (runCommand (js ''flashing unlock_bootloader'') fd3))
                                    (\<lambda>_ fd4. Some (Return (), fd4)))))))"

section \<open>Notions used in the statements\<close>

text \<open>
  The status and the message \<open>readResponse\<close> reads off a packet: the first four code
  units of its decoded text, and the rest.
\<close>

definition respStatus :: "bytes \<Rightarrow> jsstring" where
  "respStatus data = substring (TextDecoder_decode data) 0 4"

definition respMessage :: "bytes \<Rightarrow> jsstring" where
  "respMessage data = substring_from (TextDecoder_decode data) 4"

text \<open>An ASCII text as the bytes of a packet.\<close>

definition ascii :: "string \<Rightarrow> bytes" where
  "ascii s = map of_char s"

text \<open>The client once the device's \<open>transferIn\<close> outcomes up to \<open>rest\<close> are used up.\<close>

definition consume :: "(js_error + bytes) list \<Rightarrow> fastboot_device \<Rightarrow> fastboot_device" where
  "consume rest fd = fd\<lparr>device := map_option (\<lambda>d. d\<lparr>inQueue := rest\<rparr>) (device fd)\<rparr>"

text \<open>The text a run of INFO packets adds to a response: each message and a line break.\<close>

definition info_lines :: "bytes list \<Rightarrow> jsstring" where
  "info_lines infos = concat (map (\<lambda>p. respMessage p @ js ''\<newline>'') infos)"

text \<open>
  A client bound to a device with bulk endpoints IN 1 and OUT 2, nothing sent so far; the
  device will answer with \<open>packets\<close> and fail the \<open>transferOut\<close> calls as \<open>faults\<close> says.
\<close>

definition bound_client :: "(js_error + bytes) list \<Rightarrow> js_error option list \<Rightarrow> fastboot_device" where
  "bound_client packets faults =
     \<lparr>device = Some \<lparr>configurations = [], openResult = None, resetResult = None,
        selectConfigurationResult = None, claimInterfaceResult = None,
        inQueue = packets, outFaults = faults\<rparr>,
      epIn = Some 1, epOut = Some 2, registeredUsbListener = True, effects = []\<rparr>"

text \<open>
  The \<open>j\<close>-th chunk of a buffer as the loop of \<open>sendRawPayload\<close> slices it, the number
  of chunks a buffer has, and the two effects of one round of the loop: the progress call
  and the transfer of the chunk with its outcome.
\<close>

definition chunk_of :: "bytes \<Rightarrow> nat \<Rightarrow> bytes" where
  "chunk_of buffer j = slice buffer (j * BULK_TRANSFER_SIZE) ((j + 1) * BULK_TRANSFER_SIZE)"

definition chunk_count :: "bytes \<Rightarrow> nat" where
  "chunk_count buffer = (length buffer + (BULK_TRANSFER_SIZE - 1)) div BULK_TRANSFER_SIZE"

definition round_effects :: "nat option \<Rightarrow> bytes \<Rightarrow> js_error option \<Rightarrow> nat \<Rightarrow> effect list" where
  "round_effects ep buffer outcome j =
     [Progress (of_nat (j * BULK_TRANSFER_SIZE) / of_nat (length buffer)),
      TransferOut ep (chunk_of buffer j) outcome]"

text \<open>
  What the device will answer to the next \<open>transferOut\<close>, the client once \<open>m\<close> of the
  device's \<open>transferOut\<close> outcomes are used up, and the client with more effects recorded.
\<close>

definition next_outcome :: "usb_device \<Rightarrow> js_error option" where
  "next_outcome d = (case outFaults d of [] \<Rightarrow> None | r # _ \<Rightarrow> r)"

definition advance_out :: "nat \<Rightarrow> fastboot_device \<Rightarrow> fastboot_device" where
  "advance_out m fd =
     fd\<lparr>device := map_option (\<lambda>d. d\<lparr>outFaults := drop m (outFaults d)\<rparr>) (device fd)\<rparr>"

definition with_effects :: "effect list \<Rightarrow> fastboot_device \<Rightarrow> fastboot_device" where
  "with_effects new fd = fd\<lparr>effects := effects fd @ new\<rparr>"

text \<open>The \<open>transferOut\<close> calls among the effects, and the arguments of the progress calls.\<close>

fun out_transfers :: "effect list \<Rightarrow> (nat option \<times> bytes \<times> js_error option) list" where
  "out_transfers [] = []"
| "out_transfers (TransferOut ep data outcome # es) = (ep, data, outcome) # out_transfers es"
| "out_transfers (Progress v # es) = out_transfers es"

fun progress_calls :: "effect list \<Rightarrow> rat list" where
  "progress_calls [] = []"
| "progress_calls (TransferOut ep data outcome # es) = progress_calls es"
| "progress_calls (Progress v # es) = v # progress_calls es"

text \<open>The bulk endpoints of one direction, in the order of the descriptor.\<close>

definition bulk_endpoints :: "ep_direction \<Rightarrow> usb_endpoint list \<Rightarrow> usb_endpoint list" where
  "bulk_endpoints dir eps = filter (\<lambda>e. transferType e = Bulk \<and> direction e = dir) eps"

text \<open>
  A client whose device was selected but not yet validated; the first alternate of the
  device's first interface has the endpoints \<open>eps\<close>, and \<open>open\<close>, \<open>reset\<close>,
  \<open>selectConfiguration\<close> and \<open>claimInterface\<close> will succeed.
\<close>

definition selected_device :: "usb_endpoint list \<Rightarrow> usb_device" where
  "selected_device eps =
     \<lparr>configurations = [\<lparr>interfaces = [\<lparr>alternates = [\<lparr>endpoints = eps\<rparr>]\<rparr>]\<rparr>],
      openResult = None, resetResult = None, selectConfigurationResult = None,
      claimInterfaceResult = None, inQueue = [], outFaults = []\<rparr>"

definition selected_client :: "usb_endpoint list \<Rightarrow> fastboot_device" where
  "selected_client eps = constructor\<lparr>device := Some (selected_device eps)\<rparr>"

text \<open>
  The zero-padded 8-hex-digit value of \<open>n\<close>, digit by digit from the most significant,
  and the command that announces a payload of \<open>n\<close> bytes.
\<close>

definition hex8 :: "nat \<Rightarrow> jsstring" where
  "hex8 n = map hex_digit
     [n div 16 ^ 7 mod 16, n div 16 ^ 6 mod 16, n div 16 ^ 5 mod 16, n div 16 ^ 4 mod 16,
      n div 16 ^ 3 mod 16, n div 16 ^ 2 mod 16, n div 16 mod 16, n mod 16]"

definition download_command :: "nat \<Rightarrow> jsstring" where
  "download_command n = js ''download:'' @ hex8 n"

text \<open>The \<open>k\<close> least significant hex digits of \<open>n\<close>, most significant first.\<close>

fun hex_fixed :: "nat \<Rightarrow> nat \<Rightarrow> jsstring" where
  "hex_fixed 0 n = []"
| "hex_fixed (Suc k) n = hex_fixed k (n div 16) @ [hex_digit (n mod 16)]"

section \<open>Properties of readResponse\<close>

declare readResponse_loop.simps [simp del]

lemma readResponse_loop_packet:
  assumes "device fd = Some d" and "inQueue d = Inr data # rest"
  shows "readResponse_loop rd fd =
    (if respStatus data = js ''OKAY'' then
       (Return (rd\<lparr>text' := text' rd @ respMessage data\<rparr>), consume rest fd)
     else if respStatus data = js ''INFO'' then
       readResponse_loop (rd\<lparr>text' := text' rd @ respMessage data @ js ''\<newline>''\<rparr>) (consume rest fd)
     else if respStatus data = js ''DATA'' then
       (Return (rd\<lparr>dataSize := Some (respMessage data)\<rparr>), consume rest fd)
     else (Throw (FastbootError (respStatus data) (respMessage data)), consume rest fd))"
  by (subst readResponse_loop.simps)
     (simp add: transferIn_def assms respStatus_def respMessage_def consume_def Let_def)

lemma readResponse_loop_reject:
  assumes "device fd = Some d" and "inQueue d = Inl e # rest"
  shows "readResponse_loop rd fd = (Throw e, consume rest fd)"
  by (subst readResponse_loop.simps) (simp add: transferIn_def assms consume_def)

lemma readResponse_loop_empty:
  assumes "device fd = Some d" and "inQueue d = []"
  shows "readResponse_loop rd fd = (Pending, fd)"
  by (subst readResponse_loop.simps) (simp add: transferIn_def assms)

lemma readResponse_loop_unbound:
  assumes "device fd = None"
  shows "readResponse_loop rd fd = (Throw TypeError, fd)"
  by (subst readResponse_loop.simps) (simp add: transferIn_def assms)

lemma device_consume: "device fd = Some d \<Longrightarrow> device (consume q fd) = Some (d\<lparr>inQueue := q\<rparr>)"
  by (simp add: consume_def)

lemma consume_consume: "consume q (consume q' fd) = consume q fd"
  by (cases "device fd") (simp_all add: consume_def)

lemma consume_same: "device fd = Some d \<Longrightarrow> inQueue d = q \<Longrightarrow> consume q fd = fd"
  by (auto simp: consume_def)

lemma readResponse_loop_infos:
  assumes "device fd = Some d" and "inQueue d = map Inr infos @ q"
    and "\<forall>p \<in> set infos. respStatus p = js ''INFO''"
  shows "readResponse_loop rd fd =
         readResponse_loop (rd\<lparr>text' := text' rd @ info_lines infos\<rparr>) (consume q fd)"
  using assms
proof (induction infos arbitrary: rd fd d)
  case Nil
  then show ?case by (simp add: info_lines_def consume_same)
next
  case (Cons p ps)
  have ne: "js ''INFO'' \<noteq> js ''OKAY''" by (simp add: js_def)
  have st: "respStatus p = js ''INFO''" using Cons.prems by simp
  have "readResponse_loop rd fd =
        readResponse_loop (rd\<lparr>text' := text' rd @ respMessage p @ js ''\<newline>''\<rparr>)
          (consume (map Inr ps @ q) fd)"
    using Cons.prems(1,2) st ne by (simp add: readResponse_loop_packet)
  also have "\<dots> = readResponse_loop
        (rd\<lparr>text' := text' rd @ respMessage p @ js ''\<newline>'' @ info_lines ps\<rparr>)
        (consume q (consume (map Inr ps @ q) fd))"
    using Cons.prems
    by (subst Cons.IH [where d = "d\<lparr>inQueue := map Inr ps @ q\<rparr>"])
       (simp_all add: device_consume)
  finally show ?case by (simp add: consume_consume info_lines_def)
qed

lemma unat_byte_of_char: "unat (of_char c :: byte) = of_char c"
proof -
  have "unat (of_nat (of_char c) :: byte) = of_char c mod 256"
    by (simp add: unat_of_nat)
  then show ?thesis by (simp add: of_nat_of_char)
qed

lemma unat_unit_of_char: "unat (of_char c :: code_unit) = of_char c"
proof -
  have "(of_char c :: nat) < 65536"
    using nat_of_char_less_256 [of c] by linarith
  then have "unat (of_nat (of_char c) :: code_unit) = of_char c"
    by (simp add: unat_of_nat)
  then show ?thesis by (simp add: of_nat_of_char)
qed

lemma utf8_decode_ascii:
  "\<forall>c \<in> set s. (of_char c :: nat) < 128 \<Longrightarrow>
   utf8_decode_from None (ascii s) = map of_char s"
  by (induction s)
     (simp_all add: ascii_def utf8_start_def utf8_lead_byte_def unat_byte_of_char)

lemma strip_bom_ascii:
  "\<forall>c \<in> set s. (of_char c :: nat) < 128 \<Longrightarrow> strip_bom (map of_char s) = map of_char s"
  by (cases s) (auto simp: strip_bom_def)

lemma utf16_units_ascii:
  "\<forall>c \<in> set s. (of_char c :: nat) < 128 \<Longrightarrow>
   concat (map (utf16_units \<circ> of_char) s) = js s"
  unfolding js_def
  by (induction s) (simp_all add: utf16_units_def of_nat_of_char)

lemma TextDecoder_decode_ascii:
  "\<forall>c \<in> set s. (of_char c :: nat) < 128 \<Longrightarrow> TextDecoder_decode (ascii s) = js s"
  by (simp add: TextDecoder_decode_def utf8_decode_ascii strip_bom_ascii utf16_units_ascii)

lemma respStatus_ascii:
  "\<forall>c \<in> set s. (of_char c :: nat) < 128 \<Longrightarrow> respStatus (ascii s) = js (take 4 s)"
  by (simp add: respStatus_def TextDecoder_decode_ascii substring_def js_def Let_def take_map min_def)

lemma respMessage_ascii:
  "\<forall>c \<in> set s. (of_char c :: nat) < 128 \<Longrightarrow> respMessage (ascii s) = js (drop 4 s)"
  by (simp add: respMessage_def TextDecoder_decode_ascii substring_from_def js_def drop_map min_def)

lemma consume_bound_client: "consume q (bound_client p f) = bound_client q f"
  by (simp add: consume_def bound_client_def)

lemma device_bound_client:
  "device (bound_client p f) = Some \<lparr>configurations = [], openResult = None, resetResult = None,
        selectConfigurationResult = None, claimInterfaceResult = None,
        inQueue = p, outFaults = f\<rparr>"
  by (simp add: bound_client_def)

lemma readResponse_returns:
  assumes "readResponse_loop rd fd = (Return r, fd')"
  shows "\<exists>d infos t rest. device fd = Some d \<and> inQueue d = map Inr infos @ Inr t # rest \<and>
           (\<forall>p \<in> set infos. respStatus p = js ''INFO'') \<and> fd' = consume rest fd \<and>
           (respStatus t = js ''OKAY'' \<and> r = rd\<lparr>text' := text' rd @ info_lines infos @ respMessage t\<rparr>
            \<or> respStatus t = js ''DATA'' \<and>
              r = rd\<lparr>text' := text' rd @ info_lines infos, dataSize := Some (respMessage t)\<rparr>)"
proof (cases "device fd")
  case None
  with assms show ?thesis by (simp add: readResponse_loop_unbound)
next
  case (Some d)
  define q where "q = inQueue d"
  from Some q_def assms show ?thesis
  proof (induction q arbitrary: rd fd d)
    case Nil
    then show ?case by (simp add: readResponse_loop_empty)
  next
    case (Cons x q)
    show ?case
    proof (cases x)
      case (Inl e)
      with Cons.prems show ?thesis by (simp add: readResponse_loop_reject [of fd d e q])
    next
      case (Inr data)
      have dq: "inQueue d = Inr data # q" using Cons.prems(2) Inr by simp
      note step = readResponse_loop_packet [OF Cons.prems(1) dq, of rd]
      consider (okay) "respStatus data = js ''OKAY''"
        | (info) "respStatus data = js ''INFO''"
        | (data) "respStatus data = js ''DATA''" "respStatus data \<noteq> js ''OKAY''"
            "respStatus data \<noteq> js ''INFO''"
        | (other) "respStatus data \<noteq> js ''OKAY''" "respStatus data \<noteq> js ''INFO''"
            "respStatus data \<noteq> js ''DATA''"
        by blast
      then show ?thesis
      proof cases
        case okay
        with step Cons.prems(3) have "r = rd\<lparr>text' := text' rd @ respMessage data\<rparr>"
          and "fd' = consume q fd" by simp_all
        with okay dq Cons.prems(1) show ?thesis
          by (intro exI [of _ d] exI [of _ "[]"] exI [of _ data] exI [of _ q])
             (simp add: info_lines_def)
      next
        case info
        have ne: "js ''INFO'' \<noteq> js ''OKAY''" by (simp add: js_def)
        let ?rd = "rd\<lparr>text' := text' rd @ respMessage data @ js ''\<newline>''\<rparr>"
        let ?d = "d\<lparr>inQueue := q\<rparr>"
        from step info ne Cons.prems(3)
        have rec: "readResponse_loop ?rd (consume q fd) = (Return r, fd')" by simp
        have dev: "device (consume q fd) = Some ?d"
          using Cons.prems(1) by (simp add: device_consume)
        from Cons.IH [OF dev _ rec]
        obtain d' infos t rest where
          d': "device (consume q fd) = Some d'" and
          q': "inQueue d' = map Inr infos @ Inr t # rest" and
          all: "\<forall>p \<in> set infos. respStatus p = js ''INFO''" and
          fd': "fd' = consume rest (consume q fd)" and
          r: "respStatus t = js ''OKAY'' \<and> r = ?rd\<lparr>text' := text' ?rd @ info_lines infos @ respMessage t\<rparr>
            \<or> respStatus t = js ''DATA'' \<and>
              r = ?rd\<lparr>text' := text' ?rd @ info_lines infos, dataSize := Some (respMessage t)\<rparr>"
          by auto
        from d' dev q' have q: "q = map Inr infos @ Inr t # rest" by auto
        show ?thesis
          using dq q all fd' r info Cons.prems(1)
          by (intro exI [of _ d] exI [of _ "data # infos"] exI [of _ t] exI [of _ rest])
             (auto simp: info_lines_def consume_consume)
      next
        case data
        with step Cons.prems(3) have "r = rd\<lparr>dataSize := Some (respMessage data)\<rparr>"
          and "fd' = consume q fd" by simp_all
        with data dq Cons.prems(1) show ?thesis
          by (intro exI [of _ d] exI [of _ "[]"] exI [of _ data] exI [of _ q])
             (simp add: info_lines_def)
      next
        case other
        with step Cons.prems(3) show ?thesis by simp
      qed
    qed
  qed
qed

lemma readResponse_settled_consumes:
  assumes "readResponse_loop rd fd = (c, fd')" and "device fd = Some d" and "c \<noteq> Pending"
  shows "\<exists>used rest. used \<noteq> [] \<and> inQueue d = used @ rest \<and> fd' = consume rest fd"
proof -
  define q where "q = inQueue d"
  from assms(2) q_def assms(1) show ?thesis
  proof (induction q arbitrary: rd fd d)
    case Nil
    with assms(3) show ?case by (simp add: readResponse_loop_empty)
  next
    case (Cons x q)
    show ?case
    proof (cases x)
      case (Inl e)
      with Cons.prems have "fd' = consume q fd"
        by (simp add: readResponse_loop_reject [of fd d e q])
      with Cons.prems(2) show ?thesis
        by (intro exI [of _ "[x]"] exI [of _ q]) simp
    next
      case (Inr data)
      have dq: "inQueue d = Inr data # q" using Cons.prems(2) Inr by simp
      note step = readResponse_loop_packet [OF Cons.prems(1) dq, of rd]
      show ?thesis
      proof (cases "respStatus data = js ''INFO''")
        case True
        have ne: "js ''INFO'' \<noteq> js ''OKAY''" by (simp add: js_def)
        let ?rd = "rd\<lparr>text' := text' rd @ respMessage data @ js ''\<newline>''\<rparr>"
        let ?d = "d\<lparr>inQueue := q\<rparr>"
        from step True ne Cons.prems(3)
        have rec: "readResponse_loop ?rd (consume q fd) = (c, fd')" by simp
        have dev: "device (consume q fd) = Some ?d"
          using Cons.prems(1) by (simp add: device_consume)
        from Cons.IH [OF dev _ rec]
        obtain used rest where "inQueue ?d = used @ rest" "fd' = consume rest (consume q fd)"
          by auto
        with dq show ?thesis
          by (intro exI [of _ "Inr data # used"] exI [of _ rest]) (simp add: consume_consume)
      next
        case False
        with step Cons.prems(3) have "fd' = consume q fd"
          by (auto split: if_splits)
        with dq show ?thesis
          by (intro exI [of _ "[Inr data]"] exI [of _ q]) simp
      qed
    qed
  qed
qed

lemma readResponse_infos_then_OKAY:
  assumes "device fd = Some d" and "inQueue d = map Inr infos @ Inr ok # rest"
    and "\<forall>p \<in> set infos. respStatus p = js ''INFO''" and "respStatus ok = js ''OKAY''"
  shows "readResponse fd =
         (Return \<lparr>text' = info_lines infos @ respMessage ok, dataSize = None\<rparr>, consume rest fd)"
proof -
  let ?fd = "consume (Inr ok # rest) fd"
  have dev: "device ?fd = Some (d\<lparr>inQueue := Inr ok # rest\<rparr>)"
    using assms(1) by (simp add: device_consume)
  have "readResponse fd = readResponse_loop \<lparr>text' = info_lines infos, dataSize = None\<rparr> ?fd"
    unfolding readResponse_def
    by (subst readResponse_loop_infos [OF assms(1,2,3)]) simp
  also have "\<dots> = (Return \<lparr>text' = info_lines infos @ respMessage ok, dataSize = None\<rparr>,
                     consume rest ?fd)"
    using assms(4) by (subst readResponse_loop_packet [OF dev, of ok rest]) simp_all
  finally show ?thesis by (simp add: consume_consume)
qed

text \<open>
  Claim C1. Whatever \<open>readResponse\<close> has accumulated so far, an OKAY packet adds its
  message to the text and ends the loop, and an INFO packet adds its message and a line
  break and the loop goes on with the next packet. So a run of INFO packets closed by an
  OKAY packet returns the INFO lines followed by the OKAY message, with \<open>dataSize\<close> null;
  the packets INFOhello, INFOworld, OKAYdone return the text
  \<open>hello\<newline>world\<newline>done\<close>.
\<close>

theorem readResponse_OKAY_INFO:
  "(\<forall>fd d data rest rd.
      device fd = Some d \<and> inQueue d = Inr data # rest \<and> respStatus data = js ''OKAY'' \<longrightarrow>
      readResponse_loop rd fd =
        (Return (rd\<lparr>text' := text' rd @ respMessage data\<rparr>), consume rest fd))
   \<and> (\<forall>fd d data rest rd.
      device fd = Some d \<and> inQueue d = Inr data # rest \<and> respStatus data = js ''INFO'' \<longrightarrow>
      readResponse_loop rd fd =
        readResponse_loop (rd\<lparr>text' := text' rd @ respMessage data @ js ''\<newline>''\<rparr>)
          (consume rest fd))
   \<and> (\<forall>fd d infos ok rest.
      device fd = Some d \<and> inQueue d = map Inr infos @ Inr ok # rest \<and>
      (\<forall>p \<in> set infos. respStatus p = js ''INFO'') \<and> respStatus ok = js ''OKAY'' \<longrightarrow>
      readResponse fd =
        (Return \<lparr>text' = info_lines infos @ respMessage ok, dataSize = None\<rparr>,
         consume rest fd))
   \<and> (\<forall>fd d rest.
      device fd = Some d \<and>
      inQueue d = map (Inr \<circ> ascii) [''INFOhello'', ''INFOworld'', ''OKAYdone''] @ rest \<longrightarrow>
      readResponse fd =
        (Return \<lparr>text' = js ''hello\<newline>world\<newline>done'', dataSize = None\<rparr>,
         consume rest fd))"
proof (intro conjI allI impI)
  fix fd :: fastboot_device and d :: usb_device and data rest and rd :: response
  assume "device fd = Some d \<and> inQueue d = Inr data # rest \<and> respStatus data = js ''OKAY''"
  then show "readResponse_loop rd fd =
      (Return (rd\<lparr>text' := text' rd @ respMessage data\<rparr>), consume rest fd)"
    by (simp add: readResponse_loop_packet)
next
  fix fd :: fastboot_device and d :: usb_device and data rest and rd :: response
  assume "device fd = Some d \<and> inQueue d = Inr data # rest \<and> respStatus data = js ''INFO''"
  moreover have "js ''INFO'' \<noteq> js ''OKAY''" by (simp add: js_def)
  ultimately show "readResponse_loop rd fd =
      readResponse_loop (rd\<lparr>text' := text' rd @ respMessage data @ js ''\<newline>''\<rparr>)
        (consume rest fd)"
    by (simp add: readResponse_loop_packet)
next
  fix fd :: fastboot_device and d :: usb_device and infos ok rest
  assume "device fd = Some d \<and> inQueue d = map Inr infos @ Inr ok # rest \<and>
      (\<forall>p \<in> set infos. respStatus p = js ''INFO'') \<and> respStatus ok = js ''OKAY''"
  then show "readResponse fd =
      (Return \<lparr>text' = info_lines infos @ respMessage ok, dataSize = None\<rparr>, consume rest fd)"
    by (simp add: readResponse_infos_then_OKAY)
next
  fix fd :: fastboot_device and d :: usb_device and rest
  assume a: "device fd = Some d \<and>
      inQueue d = map (Inr \<circ> ascii) [''INFOhello'', ''INFOworld'', ''OKAYdone''] @ rest"
  have q: "inQueue d = map Inr [ascii ''INFOhello'', ascii ''INFOworld''] @ Inr (ascii ''OKAYdone'') # rest"
    using a by simp
  have "readResponse fd =
      (Return \<lparr>text' = info_lines [ascii ''INFOhello'', ascii ''INFOworld'']
                  @ respMessage (ascii ''OKAYdone''), dataSize = None\<rparr>, consume rest fd)"
    using a by (intro readResponse_infos_then_OKAY [OF _ q]) (simp_all add: respStatus_ascii)
  then show "readResponse fd =
      (Return \<lparr>text' = js ''hello\<newline>world\<newline>done'', dataSize = None\<rparr>, consume rest fd)"
    by (simp add: info_lines_def respMessage_ascii js_def)
qed

theorem readResponse_OKAY_INFO_witness:
  "readResponse_loop \<lparr>text' = js ''so far: '', dataSize = None\<rparr>
     (bound_client [Inr (ascii ''OKAYdone''), Inr (ascii ''OKAYnext'')] []) =
     (Return \<lparr>text' = js ''so far: done'', dataSize = None\<rparr>,
      bound_client [Inr (ascii ''OKAYnext'')] [])
   \<and> readResponse_loop \<lparr>text' = js ''so far: '', dataSize = None\<rparr>
     (bound_client [Inr (ascii ''INFOhello''), Inr (ascii ''OKAYdone'')] []) =
     readResponse_loop \<lparr>text' = js ''so far: hello\<newline>'', dataSize = None\<rparr>
       (bound_client [Inr (ascii ''OKAYdone'')] [])
   \<and> readResponse
       (bound_client (map (Inr \<circ> ascii) [''INFOhello'', ''INFOworld'', ''OKAYdone'']) []) =
     (Return \<lparr>text' = js ''hello\<newline>world\<newline>done'', dataSize = None\<rparr>, bound_client [] [])"
proof -
  note claim = readResponse_OKAY_INFO
  have 1: "readResponse_loop \<lparr>text' = js ''so far: '', dataSize = None\<rparr>
     (bound_client [Inr (ascii ''OKAYdone''), Inr (ascii ''OKAYnext'')] []) =
     (Return \<lparr>text' = js ''so far: done'', dataSize = None\<rparr>,
      bound_client [Inr (ascii ''OKAYnext'')] [])"
    using claim [THEN conjunct1, rule_format,
        of "bound_client [Inr (ascii ''OKAYdone''), Inr (ascii ''OKAYnext'')] []" _
           "ascii ''OKAYdone''" "[Inr (ascii ''OKAYnext'')]"
           "\<lparr>text' = js ''so far: '', dataSize = None\<rparr>"]
    by (simp add: device_bound_client consume_bound_client respStatus_ascii respMessage_ascii js_def)
  have 2: "readResponse_loop \<lparr>text' = js ''so far: '', dataSize = None\<rparr>
     (bound_client [Inr (ascii ''INFOhello''), Inr (ascii ''OKAYdone'')] []) =
     readResponse_loop \<lparr>text' = js ''so far: hello\<newline>'', dataSize = None\<rparr>
       (bound_client [Inr (ascii ''OKAYdone'')] [])"
    using claim [THEN conjunct2, THEN conjunct1, rule_format,
        of "bound_client [Inr (ascii ''INFOhello''), Inr (ascii ''OKAYdone'')] []" _
           "ascii ''INFOhello''" "[Inr (ascii ''OKAYdone'')]"
           "\<lparr>text' = js ''so far: '', dataSize = None\<rparr>"]
    by (simp add: device_bound_client consume_bound_client respStatus_ascii respMessage_ascii js_def)
  have 3: "readResponse
       (bound_client (map (Inr \<circ> ascii) [''INFOhello'', ''INFOworld'', ''OKAYdone'']) []) =
     (Return \<lparr>text' = js ''hello\<newline>world\<newline>done'', dataSize = None\<rparr>, bound_client [] [])"
    using claim [THEN conjunct2, THEN conjunct2, THEN conjunct2, rule_format,
        of "bound_client (map (Inr \<circ> ascii) [''INFOhello'', ''INFOworld'', ''OKAYdone'']) []" _ "[]"]
    by (simp add: device_bound_client consume_bound_client)
  from 1 2 3 show ?thesis by blast
qed

text \<open>
  Claim C2. A DATA packet sets \<open>dataSize\<close> to its message as it stands, leaves the text
  alone and ends the loop. A response that carries a \<open>dataSize\<close> was therefore closed by
  one DATA packet, the last one read, after INFO packets only: \<open>dataSize\<close> is set once.
  The single packet DATA0000002a returns \<open>dataSize\<close> 0000002a and the empty text.
\<close>

theorem readResponse_DATA:
  "(\<forall>fd d data rest rd.
      device fd = Some d \<and> inQueue d = Inr data # rest \<and> respStatus data = js ''DATA'' \<longrightarrow>
      readResponse_loop rd fd =
        (Return (rd\<lparr>dataSize := Some (respMessage data)\<rparr>), consume rest fd))
   \<and> (\<forall>fd r fd'.
      readResponse fd = (Return r, fd') \<and> dataSize r \<noteq> None \<longrightarrow>
      (\<exists>d infos data rest.
         device fd = Some d \<and> inQueue d = map Inr infos @ Inr data # rest \<and>
         (\<forall>p \<in> set infos. respStatus p = js ''INFO'') \<and> respStatus data = js ''DATA'' \<and>
         dataSize r = Some (respMessage data) \<and> text' r = info_lines infos \<and>
         fd' = consume rest fd))
   \<and> (\<forall>fd d rest.
      device fd = Some d \<and> inQueue d = Inr (ascii ''DATA0000002a'') # rest \<longrightarrow>
      readResponse fd =
        (Return \<lparr>text' = js '''', dataSize = Some (js ''0000002a'')\<rparr>, consume rest fd))"
proof (intro conjI allI impI)
  fix fd :: fastboot_device and d :: usb_device and data rest and rd :: response
  assume "device fd = Some d \<and> inQueue d = Inr data # rest \<and> respStatus data = js ''DATA''"
  moreover have "js ''DATA'' \<noteq> js ''OKAY''" "js ''DATA'' \<noteq> js ''INFO''"
    by (simp_all add: js_def)
  ultimately show "readResponse_loop rd fd =
      (Return (rd\<lparr>dataSize := Some (respMessage data)\<rparr>), consume rest fd)"
    by (simp add: readResponse_loop_packet)
next
  fix fd :: fastboot_device and r :: response and fd' :: fastboot_device
  assume a: "readResponse fd = (Return r, fd') \<and> dataSize r \<noteq> None"
  then have "readResponse_loop \<lparr>text' = [], dataSize = None\<rparr> fd = (Return r, fd')"
    by (simp add: readResponse_def)
  from readResponse_returns [OF this] a
  show "\<exists>d infos data rest.
         device fd = Some d \<and> inQueue d = map Inr infos @ Inr data # rest \<and>
         (\<forall>p \<in> set infos. respStatus p = js ''INFO'') \<and> respStatus data = js ''DATA'' \<and>
         dataSize r = Some (respMessage data) \<and> text' r = info_lines infos \<and>
         fd' = consume rest fd"
    by fastforce
next
  fix fd :: fastboot_device and d :: usb_device and rest
  assume a: "device fd = Some d \<and> inQueue d = Inr (ascii ''DATA0000002a'') # rest"
  then show "readResponse fd =
      (Return \<lparr>text' = js '''', dataSize = Some (js ''0000002a'')\<rparr>, consume rest fd)"
    unfolding readResponse_def
    by (subst readResponse_loop_packet [of fd d "ascii ''DATA0000002a''" rest])
       (simp_all add: respStatus_ascii respMessage_ascii js_def)
qed

theorem readResponse_DATA_witness:
  "readResponse_loop \<lparr>text' = js ''so far'', dataSize = None\<rparr>
     (bound_client [Inr (ascii ''DATA00000010''), Inr (ascii ''DATA00000020'')] []) =
     (Return \<lparr>text' = js ''so far'', dataSize = Some (js ''00000010'')\<rparr>,
      bound_client [Inr (ascii ''DATA00000020'')] [])
   \<and> (\<exists>d infos data rest.
         device (bound_client [Inr (ascii ''INFOerasing''), Inr (ascii ''DATA0000002a'')] []) = Some d \<and>
         inQueue d = map Inr infos @ Inr data # rest \<and>
         (\<forall>p \<in> set infos. respStatus p = js ''INFO'') \<and> respStatus data = js ''DATA'' \<and>
         Some (js ''0000002a'') = Some (respMessage data) \<and>
         js ''erasing\<newline>'' = info_lines infos \<and>
         bound_client [] [] =
           consume rest (bound_client [Inr (ascii ''INFOerasing''), Inr (ascii ''DATA0000002a'')] []))
   \<and> readResponse (bound_client [Inr (ascii ''DATA0000002a'')] []) =
     (Return \<lparr>text' = js '''', dataSize = Some (js ''0000002a'')\<rparr>, bound_client [] [])"
proof -
  note claim = readResponse_DATA
  let ?fd = "bound_client [Inr (ascii ''INFOerasing''), Inr (ascii ''DATA0000002a'')] []"
  have 1: "readResponse_loop \<lparr>text' = js ''so far'', dataSize = None\<rparr>
     (bound_client [Inr (ascii ''DATA00000010''), Inr (ascii ''DATA00000020'')] []) =
     (Return \<lparr>text' = js ''so far'', dataSize = Some (js ''00000010'')\<rparr>,
      bound_client [Inr (ascii ''DATA00000020'')] [])"
    using claim [THEN conjunct1, rule_format,
        of "bound_client [Inr (ascii ''DATA00000010''), Inr (ascii ''DATA00000020'')] []" _
           "ascii ''DATA00000010''" "[Inr (ascii ''DATA00000020'')]"
           "\<lparr>text' = js ''so far'', dataSize = None\<rparr>"]
    by (simp add: device_bound_client consume_bound_client respStatus_ascii respMessage_ascii js_def)
  have run: "readResponse ?fd =
      (Return \<lparr>text' = js ''erasing\<newline>'', dataSize = Some (js ''0000002a'')\<rparr>, bound_client [] [])"
    unfolding readResponse_def
    by (subst readResponse_loop_packet [OF device_bound_client], simp,
        simp add: respStatus_ascii respMessage_ascii consume_bound_client js_def,
        subst readResponse_loop_packet [OF device_bound_client], simp,
        simp add: respStatus_ascii respMessage_ascii consume_bound_client js_def)
  have 2: "\<exists>d infos data rest.
         device ?fd = Some d \<and>
         inQueue d = map Inr infos @ Inr data # rest \<and>
         (\<forall>p \<in> set infos. respStatus p = js ''INFO'') \<and> respStatus data = js ''DATA'' \<and>
         Some (js ''0000002a'') = Some (respMessage data) \<and>
         js ''erasing\<newline>'' = info_lines infos \<and>
         bound_client [] [] = consume rest ?fd"
    using claim [THEN conjunct2, THEN conjunct1, rule_format, of ?fd
        "\<lparr>text' = js ''erasing\<newline>'', dataSize = Some (js ''0000002a'')\<rparr>" "bound_client [] []"]
      run
    by simp
  have 3: "readResponse (bound_client [Inr (ascii ''DATA0000002a'')] []) =
     (Return \<lparr>text' = js '''', dataSize = Some (js ''0000002a'')\<rparr>, bound_client [] [])"
    using claim [THEN conjunct2, THEN conjunct2, rule_format,
        of "bound_client [Inr (ascii ''DATA0000002a'')] []" _ "[]"]
    by (simp add: device_bound_client consume_bound_client)
  from 1 2 3 show ?thesis by blast
qed


lemma readResponse_complete:
  assumes "readResponse fd = (Return r, fd')"
  shows "\<exists>d infos t rest.
         device fd = Some d \<and> inQueue d = map Inr infos @ Inr t # rest \<and>
         (\<forall>p \<in> set infos. respStatus p = js ''INFO'') \<and> fd' = consume rest fd \<and>
         (respStatus t = js ''OKAY'' \<and>
            r = \<lparr>text' = info_lines infos @ respMessage t, dataSize = None\<rparr>
          \<or> respStatus t = js ''DATA'' \<and>
            r = \<lparr>text' = info_lines infos, dataSize = Some (respMessage t)\<rparr>)"
proof -
  from assms have "readResponse_loop \<lparr>text' = [], dataSize = None\<rparr> fd = (Return r, fd')"
    by (simp add: readResponse_def)
  from readResponse_returns [OF this] show ?thesis by simp
qed

text \<open>
  Claim C3. A packet whose status is none of OKAY, INFO and DATA makes the call throw a
  \<open>FastbootError\<close> with that status and the packet's message, whatever was accumulated:
  no response is returned. A call that returns has read INFO packets and then one OKAY or
  DATA packet, and its response is made of these packets alone, starting from the empty
  text and a null \<open>dataSize\<close>. A call that returned or threw has used up at least one
  packet, and the next call reads on from the packets left: what it returns is made of
  packets that follow the ones the first call used. The packet \<open>FAILbad state\<close> throws
  with status FAIL and message \<open>bad state\<close>.
\<close>

theorem readResponse_fails_or_completes:
  "(\<forall>fd d data rest rd.
      device fd = Some d \<and> inQueue d = Inr data # rest \<and>
      respStatus data \<noteq> js ''OKAY'' \<and> respStatus data \<noteq> js ''INFO'' \<and>
      respStatus data \<noteq> js ''DATA'' \<longrightarrow>
      readResponse_loop rd fd =
        (Throw (FastbootError (respStatus data) (respMessage data)), consume rest fd))
   \<and> (\<forall>fd r fd'.
      readResponse fd = (Return r, fd') \<longrightarrow>
      (\<exists>d infos t rest.
         device fd = Some d \<and> inQueue d = map Inr infos @ Inr t # rest \<and>
         (\<forall>p \<in> set infos. respStatus p = js ''INFO'') \<and> fd' = consume rest fd \<and>
         (respStatus t = js ''OKAY'' \<and>
            r = \<lparr>text' = info_lines infos @ respMessage t, dataSize = None\<rparr>
          \<or> respStatus t = js ''DATA'' \<and>
            r = \<lparr>text' = info_lines infos, dataSize = Some (respMessage t)\<rparr>)))
   \<and> (\<forall>fd d c fd'.
      device fd = Some d \<and> readResponse fd = (c, fd') \<and> c \<noteq> Pending \<longrightarrow>
      (\<exists>used rest. used \<noteq> [] \<and> inQueue d = used @ rest \<and> fd' = consume rest fd))
   \<and> (\<forall>fd d c fd1 r fd2.
      device fd = Some d \<and> readResponse fd = (c, fd1) \<and> c \<noteq> Pending \<and>
      readResponse fd1 = (Return r, fd2) \<longrightarrow>
      (\<exists>used infos t rest.
         used \<noteq> [] \<and> inQueue d = used @ map Inr infos @ Inr t # rest \<and>
         (\<forall>p \<in> set infos. respStatus p = js ''INFO'') \<and> fd2 = consume rest fd \<and>
         (respStatus t = js ''OKAY'' \<and>
            r = \<lparr>text' = info_lines infos @ respMessage t, dataSize = None\<rparr>
          \<or> respStatus t = js ''DATA'' \<and>
            r = \<lparr>text' = info_lines infos, dataSize = Some (respMessage t)\<rparr>)))
   \<and> (\<forall>fd d rest.
      device fd = Some d \<and> inQueue d = Inr (ascii ''FAILbad state'') # rest \<longrightarrow>
      readResponse fd = (Throw (FastbootError (js ''FAIL'') (js ''bad state'')), consume rest fd))"
proof (intro conjI allI impI)
  fix fd :: fastboot_device and d :: usb_device and data rest and rd :: response
  assume "device fd = Some d \<and> inQueue d = Inr data # rest \<and>
      respStatus data \<noteq> js ''OKAY'' \<and> respStatus data \<noteq> js ''INFO'' \<and>
      respStatus data \<noteq> js ''DATA''"
  then show "readResponse_loop rd fd =
      (Throw (FastbootError (respStatus data) (respMessage data)), consume rest fd)"
    by (simp add: readResponse_loop_packet)
next
  fix fd :: fastboot_device and r :: response and fd' :: fastboot_device
  assume "readResponse fd = (Return r, fd')"
  then show "\<exists>d infos t rest.
         device fd = Some d \<and> inQueue d = map Inr infos @ Inr t # rest \<and>
         (\<forall>p \<in> set infos. respStatus p = js ''INFO'') \<and> fd' = consume rest fd \<and>
         (respStatus t = js ''OKAY'' \<and>
            r = \<lparr>text' = info_lines infos @ respMessage t, dataSize = None\<rparr>
          \<or> respStatus t = js ''DATA'' \<and>
            r = \<lparr>text' = info_lines infos, dataSize = Some (respMessage t)\<rparr>)"
    by (rule readResponse_complete)
next
  fix fd :: fastboot_device and d :: usb_device and c :: "response completion" and fd' :: fastboot_device
  assume "device fd = Some d \<and> readResponse fd = (c, fd') \<and> c \<noteq> Pending"
  then show "\<exists>used rest. used \<noteq> [] \<and> inQueue d = used @ rest \<and> fd' = consume rest fd"
    unfolding readResponse_def by (blast intro: readResponse_settled_consumes)
next
  fix fd :: fastboot_device and d :: usb_device and c :: "response completion"
    and fd1 fd2 :: fastboot_device and r :: response
  assume a: "device fd = Some d \<and> readResponse fd = (c, fd1) \<and> c \<noteq> Pending \<and>
      readResponse fd1 = (Return r, fd2)"
  then obtain used q where used: "used \<noteq> []" "inQueue d = used @ q" "fd1 = consume q fd"
    unfolding readResponse_def by (blast dest: readResponse_settled_consumes)
  from a have dev1: "device fd1 = Some (d\<lparr>inQueue := q\<rparr>)"
    using used(3) by (simp add: device_consume)
  from a readResponse_complete [of fd1 r fd2]
  obtain d1 infos t rest where
    c: "device fd1 = Some d1" "inQueue d1 = map Inr infos @ Inr t # rest"
      "\<forall>p \<in> set infos. respStatus p = js ''INFO''" "fd2 = consume rest fd1"
      "respStatus t = js ''OKAY'' \<and>
            r = \<lparr>text' = info_lines infos @ respMessage t, dataSize = None\<rparr>
          \<or> respStatus t = js ''DATA'' \<and>
            r = \<lparr>text' = info_lines infos, dataSize = Some (respMessage t)\<rparr>"
    by auto
  from dev1 c(1,2) have "q = map Inr infos @ Inr t # rest" by auto
  with used c show "\<exists>used infos t rest.
         used \<noteq> [] \<and> inQueue d = used @ map Inr infos @ Inr t # rest \<and>
         (\<forall>p \<in> set infos. respStatus p = js ''INFO'') \<and> fd2 = consume rest fd \<and>
         (respStatus t = js ''OKAY'' \<and>
            r = \<lparr>text' = info_lines infos @ respMessage t, dataSize = None\<rparr>
          \<or> respStatus t = js ''DATA'' \<and>
            r = \<lparr>text' = info_lines infos, dataSize = Some (respMessage t)\<rparr>)"
    by (intro exI [of _ used] exI [of _ infos] exI [of _ t] exI [of _ rest])
       (simp add: consume_consume)
next
  fix fd :: fastboot_device and d :: usb_device and rest
  assume "device fd = Some d \<and> inQueue d = Inr (ascii ''FAILbad state'') # rest"
  then show "readResponse fd =
      (Throw (FastbootError (js ''FAIL'') (js ''bad state'')), consume rest fd)"
    unfolding readResponse_def
    by (subst readResponse_loop_packet [of fd d "ascii ''FAILbad state''" rest])
       (simp_all add: respStatus_ascii respMessage_ascii js_def)
qed


theorem readResponse_fails_or_completes_witness:
  "readResponse_loop \<lparr>text' = js ''so far'', dataSize = None\<rparr>
     (bound_client [Inr (ascii ''WHAT?''), Inr (ascii ''OKAYnext'')] []) =
     (Throw (FastbootError (js ''WHAT'') (js ''?'')), bound_client [Inr (ascii ''OKAYnext'')] [])
   \<and> (\<exists>d infos t rest.
         device (bound_client [Inr (ascii ''INFOone''), Inr (ascii ''OKAYtwo'')] []) = Some d \<and>
         inQueue d = map Inr infos @ Inr t # rest \<and>
         (\<forall>p \<in> set infos. respStatus p = js ''INFO'') \<and>
         bound_client [] [] =
           consume rest (bound_client [Inr (ascii ''INFOone''), Inr (ascii ''OKAYtwo'')] []) \<and>
         (respStatus t = js ''OKAY'' \<and>
            \<lparr>text' = js ''one\<newline>two'', dataSize = None\<rparr> =
              \<lparr>text' = info_lines infos @ respMessage t, dataSize = None\<rparr>
          \<or> respStatus t = js ''DATA'' \<and>
            \<lparr>text' = js ''one\<newline>two'', dataSize = None\<rparr> =
              \<lparr>text' = info_lines infos, dataSize = Some (respMessage t)\<rparr>))
   \<and> (\<exists>used rest. used \<noteq> [] \<and>
         [Inr (ascii ''FAILbad state''), Inr (ascii ''OKAYnext'')] = used @ rest \<and>
         bound_client [Inr (ascii ''OKAYnext'')] [] =
           consume rest (bound_client [Inr (ascii ''FAILbad state''), Inr (ascii ''OKAYnext'')] []))
   \<and> (\<exists>used infos t rest. used \<noteq> [] \<and>
         [Inr (ascii ''FAILbad state''), Inr (ascii ''OKAYnext'')] =
           used @ map Inr infos @ Inr t # rest \<and>
         (\<forall>p \<in> set infos. respStatus p = js ''INFO'') \<and>
         bound_client [] [] =
           consume rest (bound_client [Inr (ascii ''FAILbad state''), Inr (ascii ''OKAYnext'')] []) \<and>
         (respStatus t = js ''OKAY'' \<and>
            \<lparr>text' = js ''next'', dataSize = None\<rparr> =
              \<lparr>text' = info_lines infos @ respMessage t, dataSize = None\<rparr>
          \<or> respStatus t = js ''DATA'' \<and>
            \<lparr>text' = js ''next'', dataSize = None\<rparr> =
              \<lparr>text' = info_lines infos, dataSize = Some (respMessage t)\<rparr>))
   \<and> readResponse (bound_client [Inr (ascii ''FAILbad state''), Inr (ascii ''OKAYnext'')] []) =
     (Throw (FastbootError (js ''FAIL'') (js ''bad state'')),
      bound_client [Inr (ascii ''OKAYnext'')] [])"
proof -
  note claim = readResponse_fails_or_completes
  let ?ok = "bound_client [Inr (ascii ''INFOone''), Inr (ascii ''OKAYtwo'')] []"
  let ?bad = "bound_client [Inr (ascii ''FAILbad state''), Inr (ascii ''OKAYnext'')] []"
  let ?d = "\<lparr>configurations = [], openResult = None, resetResult = None,
        selectConfigurationResult = None, claimInterfaceResult = None,
        inQueue = [Inr (ascii ''FAILbad state''), Inr (ascii ''OKAYnext'')], outFaults = []\<rparr>"
  have 1: "readResponse_loop \<lparr>text' = js ''so far'', dataSize = None\<rparr>
     (bound_client [Inr (ascii ''WHAT?''), Inr (ascii ''OKAYnext'')] []) =
     (Throw (FastbootError (js ''WHAT'') (js ''?'')), bound_client [Inr (ascii ''OKAYnext'')] [])"
    using claim [THEN conjunct1, rule_format,
        of "bound_client [Inr (ascii ''WHAT?''), Inr (ascii ''OKAYnext'')] []" _
           "ascii ''WHAT?''" "[Inr (ascii ''OKAYnext'')]"
           "\<lparr>text' = js ''so far'', dataSize = None\<rparr>"]
    by (simp add: device_bound_client consume_bound_client respStatus_ascii respMessage_ascii js_def)
  have run_ok: "readResponse ?ok =
      (Return \<lparr>text' = js ''one\<newline>two'', dataSize = None\<rparr>, bound_client [] [])"
    using readResponse_infos_then_OKAY [OF device_bound_client,
        of "[Inr (ascii ''INFOone''), Inr (ascii ''OKAYtwo'')]" "[]" "[ascii ''INFOone'']"
           "ascii ''OKAYtwo''" "[]"]
    by (simp add: respStatus_ascii respMessage_ascii info_lines_def consume_bound_client js_def)
  have 2: "\<exists>d infos t rest.
         device ?ok = Some d \<and>
         inQueue d = map Inr infos @ Inr t # rest \<and>
         (\<forall>p \<in> set infos. respStatus p = js ''INFO'') \<and>
         bound_client [] [] = consume rest ?ok \<and>
         (respStatus t = js ''OKAY'' \<and>
            \<lparr>text' = js ''one\<newline>two'', dataSize = None\<rparr> =
              \<lparr>text' = info_lines infos @ respMessage t, dataSize = None\<rparr>
          \<or> respStatus t = js ''DATA'' \<and>
            \<lparr>text' = js ''one\<newline>two'', dataSize = None\<rparr> =
              \<lparr>text' = info_lines infos, dataSize = Some (respMessage t)\<rparr>)"
    using claim [THEN conjunct2, THEN conjunct1, rule_format, OF run_ok] .
  have run_bad: "readResponse ?bad =
      (Throw (FastbootError (js ''FAIL'') (js ''bad state'')), bound_client [Inr (ascii ''OKAYnext'')] [])"
    using claim [THEN conjunct2, THEN conjunct2, THEN conjunct2, THEN conjunct2, rule_format,
        of ?bad _ "[Inr (ascii ''OKAYnext'')]"]
    by (simp add: device_bound_client consume_bound_client)
  have run_next: "readResponse (bound_client [Inr (ascii ''OKAYnext'')] []) =
      (Return \<lparr>text' = js ''next'', dataSize = None\<rparr>, bound_client [] [])"
    using readResponse_infos_then_OKAY [OF device_bound_client,
        of "[Inr (ascii ''OKAYnext'')]" "[]" "[]" "ascii ''OKAYnext''" "[]"]
    by (simp add: respStatus_ascii respMessage_ascii info_lines_def consume_bound_client js_def)
  have 3: "\<exists>used rest. used \<noteq> [] \<and>
         [Inr (ascii ''FAILbad state''), Inr (ascii ''OKAYnext'')] = used @ rest \<and>
         bound_client [Inr (ascii ''OKAYnext'')] [] = consume rest ?bad"
    using claim [THEN conjunct2, THEN conjunct2, THEN conjunct1, rule_format,
        of ?bad ?d "Throw (FastbootError (js ''FAIL'') (js ''bad state''))"
           "bound_client [Inr (ascii ''OKAYnext'')] []"]
      run_bad
    by (simp add: device_bound_client)
  have 4: "\<exists>used infos t rest. used \<noteq> [] \<and>
         [Inr (ascii ''FAILbad state''), Inr (ascii ''OKAYnext'')] =
           used @ map Inr infos @ Inr t # rest \<and>
         (\<forall>p \<in> set infos. respStatus p = js ''INFO'') \<and>
         bound_client [] [] = consume rest ?bad \<and>
         (respStatus t = js ''OKAY'' \<and>
            \<lparr>text' = js ''next'', dataSize = None\<rparr> =
              \<lparr>text' = info_lines infos @ respMessage t, dataSize = None\<rparr>
          \<or> respStatus t = js ''DATA'' \<and>
            \<lparr>text' = js ''next'', dataSize = None\<rparr> =
              \<lparr>text' = info_lines infos, dataSize = Some (respMessage t)\<rparr>)"
    using claim [THEN conjunct2, THEN conjunct2, THEN conjunct2, THEN conjunct1, rule_format,
        of ?bad ?d "Throw (FastbootError (js ''FAIL'') (js ''bad state''))"
           "bound_client [Inr (ascii ''OKAYnext'')] []"
           "\<lparr>text' = js ''next'', dataSize = None\<rparr>" "bound_client [] []"]
      run_bad run_next
    by (simp add: device_bound_client)
  from 1 2 3 4 run_bad show ?thesis by blast
qed

section \<open>Properties of sendRawPayload\<close>

lemma transferOut_bound:
  assumes "device fd = Some d"
  shows "transferOut ep data fd =
     ((case next_outcome d of None \<Rightarrow> Return () | Some e \<Rightarrow> Throw e),
      with_effects [TransferOut ep data (next_outcome d)] (advance_out 1 fd))"
proof (cases "outFaults d")
  case Nil
  then have "d\<lparr>outFaults := []\<rparr> = d" by (cases d) simp
  with Nil assms have "advance_out 1 fd = fd" by (simp add: advance_out_def)
  with Nil assms show ?thesis
    by (simp add: transferOut_def next_outcome_def with_effects_def)
next
  case (Cons r rest)
  with assms show ?thesis
    by (simp add: transferOut_def next_outcome_def with_effects_def advance_out_def)
qed

lemma chunk_length:
  "length (chunk_of buffer k) = min BULK_TRANSFER_SIZE (length buffer - k * BULK_TRANSFER_SIZE)"
  by (auto simp: chunk_of_def slice_def Let_def min_def)

lemma chunk_take_drop:
  "chunk_of buffer k = take BULK_TRANSFER_SIZE (drop (k * BULK_TRANSFER_SIZE) buffer)"
  by (cases "k * BULK_TRANSFER_SIZE \<le> length buffer")
     (auto simp: chunk_of_def slice_def Let_def min_def)

lemma chunk_count_less: "k < chunk_count buffer \<longleftrightarrow> k * BULK_TRANSFER_SIZE < length buffer"
proof -
  let ?S = BULK_TRANSFER_SIZE
  have pos: "0 < ?S" by (simp add: BULK_TRANSFER_SIZE_def)
  have "k < chunk_count buffer \<longleftrightarrow> Suc k \<le> (length buffer + (?S - 1)) div ?S"
    by (simp add: chunk_count_def Suc_le_eq)
  also have "\<dots> \<longleftrightarrow> Suc k * ?S \<le> length buffer + (?S - 1)"
    using pos by (rule less_eq_div_iff_mult_less_eq)
  also have "\<dots> \<longleftrightarrow> k * ?S + ?S \<le> length buffer + (?S - 1)"
    by (simp add: add.commute)
  also have "\<dots> \<longleftrightarrow> k * ?S < length buffer"
    using pos by linarith
  finally show ?thesis .
qed

lemma advance_out_0: "advance_out 0 fd = fd"
  by (cases "device fd") (simp_all add: advance_out_def)

lemma advance_out_add: "advance_out a (advance_out b fd) = advance_out (b + a) fd"
  by (cases "device fd") (simp_all add: advance_out_def add.commute)

lemma with_effects_Nil: "with_effects [] fd = fd"
  by (simp add: with_effects_def)

lemma with_effects_append: "with_effects a (with_effects b fd) = with_effects (b @ a) fd"
  by (simp add: with_effects_def)

lemma advance_out_with_effects:
  "advance_out m (with_effects a fd) = with_effects a (advance_out m fd)"
  by (simp add: with_effects_def advance_out_def)

lemma device_advance_out:
  "device fd = Some d \<Longrightarrow>
   device (with_effects a (advance_out m fd)) = Some (d\<lparr>outFaults := drop m (outFaults d)\<rparr>)"
  by (simp add: with_effects_def advance_out_def)

lemma epOut_advance_out: "epOut (with_effects a (advance_out m fd)) = epOut fd"
  by (simp add: with_effects_def advance_out_def)

lemma sendRawPayload_loop_done:
  assumes "\<not> k * BULK_TRANSFER_SIZE < length buffer"
  shows "sendRawPayload_loop buffer k (int (length buffer - k * BULK_TRANSFER_SIZE)) fd =
         Some (Return (), fd)"
  using assms by (subst sendRawPayload_loop.simps) simp

lemma sendRawPayload_loop_round:
  assumes "device fd = Some d" and "k * BULK_TRANSFER_SIZE < length buffer"
  shows "sendRawPayload_loop buffer k (int (length buffer - k * BULK_TRANSFER_SIZE)) fd =
     (case next_outcome d of
        None \<Rightarrow>
          sendRawPayload_loop buffer (k + 1)
            (int (length buffer - (k + 1) * BULK_TRANSFER_SIZE))
            (with_effects (round_effects (epOut fd) buffer None k) (advance_out 1 fd))
      | Some e \<Rightarrow>
          Some (Throw e,
            with_effects (round_effects (epOut fd) buffer (Some e) k) (advance_out 1 fd)))"
proof -
  let ?L = "length buffer" and ?S = BULK_TRANSFER_SIZE
  let ?v = "of_nat (k * ?S) / of_nat ?L :: rat"
  let ?fd1 = "onProgress ?v fd"
  have "0 < ?L - k * ?S" using assms(2) by simp
  then have pos: "int (?L - k * ?S) > 0" by (simp only: of_nat_0_less_iff)
  have v: "of_int (int ?L - int (?L - k * ?S)) / of_nat ?L = ?v"
  proof -
    have "int ?L - int (?L - k * ?S) = int (k * ?S)" using assms(2) by linarith
    then show ?thesis by (simp only: of_int_of_nat_eq)
  qed
  have dev1: "device ?fd1 = Some d" using assms(1) by (simp add: onProgress_def)
  have ep1: "epOut ?fd1 = epOut fd" by (simp add: onProgress_def)
  have le: "length (chunk_of buffer k) \<le> ?L - k * ?S" by (simp add: chunk_length)
  have "?L - k * ?S - length (chunk_of buffer k) = ?L - (k + 1) * ?S"
    by (simp add: chunk_length min_def add.commute)
  with of_nat_diff [OF le, where ?'a = int]
  have rem: "int (?L - k * ?S) - int (length (chunk_of buffer k)) = int (?L - (k + 1) * ?S)"
    by simp
  have st: "with_effects [TransferOut (epOut fd) (chunk_of buffer k) r] (advance_out 1 ?fd1) =
        with_effects (round_effects (epOut fd) buffer r k) (advance_out 1 fd)" for r
    by (simp add: with_effects_def advance_out_def onProgress_def round_effects_def)
  show ?thesis
    apply (subst sendRawPayload_loop.simps)
    apply (simp only: pos if_True Let_def v chunk_of_def [symmetric])
    apply (simp only: transferOut_bound [OF dev1] ep1 st)
    apply (cases "next_outcome d")
     apply (simp_all only: option.case prod.case completion.case rem)
    done
qed

lemma sendRawPayload_loop_ok:
  assumes "device fd = Some d"
    and "\<forall>r \<in> set (take (chunk_count buffer - k) (outFaults d)). r = None"
  shows "sendRawPayload_loop buffer k (int (length buffer - k * BULK_TRANSFER_SIZE)) fd =
     Some (Return (),
       with_effects (concat (map (round_effects (epOut fd) buffer None) [k..<chunk_count buffer]))
         (advance_out (chunk_count buffer - k) fd))"
  using assms
proof (induction "chunk_count buffer - k" arbitrary: k fd d)
  case 0
  then have "\<not> k * BULK_TRANSFER_SIZE < length buffer"
    by (simp add: chunk_count_less [symmetric])
  then have "sendRawPayload_loop buffer k (int (length buffer - k * BULK_TRANSFER_SIZE)) fd =
      Some (Return (), fd)"
    by (rule sendRawPayload_loop_done)
  moreover have "[k..<chunk_count buffer] = []" and "chunk_count buffer - k = 0"
    using 0 by simp_all
  ultimately show ?case
    by (simp only: advance_out_0 with_effects_Nil list.map concat.simps)
next
  case (Suc m)
  let ?n = "chunk_count buffer"
  let ?fd = "with_effects (round_effects (epOut fd) buffer None k) (advance_out 1 fd)"
  from Suc.hyps(2) have k: "k < ?n" and m: "m = ?n - (k + 1)" by simp_all
  have first: "next_outcome d = None"
  proof (cases "outFaults d")
    case Nil
    then show ?thesis by (simp add: next_outcome_def)
  next
    case (Cons r rest)
    with Suc.prems(2) Suc.hyps(2) [symmetric] show ?thesis by (simp add: next_outcome_def)
  qed
  have dev: "device ?fd = Some (d\<lparr>outFaults := drop 1 (outFaults d)\<rparr>)"
    using Suc.prems(1) by (rule device_advance_out)
  have rest: "\<forall>r \<in> set (take (?n - (k + 1)) (outFaults (d\<lparr>outFaults := drop 1 (outFaults d)\<rparr>))).
      r = None"
  proof
    fix r
    assume "r \<in> set (take (?n - (k + 1)) (outFaults (d\<lparr>outFaults := drop 1 (outFaults d)\<rparr>)))"
    then have "r \<in> set (drop 1 (take (?n - k) (outFaults d)))"
      using k by (simp add: drop_take)
    then have "r \<in> set (take (?n - k) (outFaults d))" by (rule in_set_dropD)
    with Suc.prems(2) show "r = None" by blast
  qed
  have up: "[k..<?n] = k # [k + 1..<?n]" using k by (simp add: upt_conv_Cons)
  have "sendRawPayload_loop buffer k (int (length buffer - k * BULK_TRANSFER_SIZE)) fd =
        sendRawPayload_loop buffer (k + 1)
          (int (length buffer - (k + 1) * BULK_TRANSFER_SIZE)) ?fd"
    using k first
    by (simp only: sendRawPayload_loop_round [OF Suc.prems(1)] chunk_count_less option.case)
  also have "\<dots> = Some (Return (),
       with_effects (concat (map (round_effects (epOut ?fd) buffer None) [k + 1..<?n]))
         (advance_out (?n - (k + 1)) ?fd))"
    using m dev rest by (intro Suc.hyps(1))
  also have "\<dots> = Some (Return (),
       with_effects (concat (map (round_effects (epOut fd) buffer None) [k..<?n]))
         (advance_out (?n - k) fd))"
  proof -
    have "1 + (?n - (k + 1)) = ?n - k" using k by simp
    then have "advance_out (?n - (k + 1)) ?fd =
        with_effects (round_effects (epOut fd) buffer None k) (advance_out (?n - k) fd)"
      by (simp only: advance_out_with_effects advance_out_add)
    then show ?thesis
      by (simp only: epOut_advance_out up with_effects_append list.map concat.simps)
  qed
  finally show ?case .
qed

lemma sendRawPayload_loop_fail:
  assumes "device fd = Some d" and "outFaults d = replicate f None @ Some e # rest"
    and "k + f < chunk_count buffer"
  shows "sendRawPayload_loop buffer k (int (length buffer - k * BULK_TRANSFER_SIZE)) fd =
     Some (Throw e,
       with_effects (concat (map (round_effects (epOut fd) buffer None) [k..<k + f])
                     @ round_effects (epOut fd) buffer (Some e) (k + f))
         (advance_out (f + 1) fd))"
  using assms
proof (induction f arbitrary: k fd d)
  case 0
  then have k: "k * BULK_TRANSFER_SIZE < length buffer" and first: "next_outcome d = Some e"
    by (simp_all add: chunk_count_less next_outcome_def)
  show ?case
    using k first
    by (simp only: sendRawPayload_loop_round [OF "0.prems"(1)] option.case
        add_0_right upt_rec [of k k] less_irrefl if_False list.map concat.simps append_Nil
        add_0)
next
  case (Suc f)
  let ?fd = "with_effects (round_effects (epOut fd) buffer None k) (advance_out 1 fd)"
  from Suc.prems(3) have "k < chunk_count buffer" by simp
  then have k: "k * BULK_TRANSFER_SIZE < length buffer" by (simp only: chunk_count_less)
  from Suc.prems(2) have first: "next_outcome d = None" by (simp add: next_outcome_def)
  have dev: "device ?fd = Some (d\<lparr>outFaults := drop 1 (outFaults d)\<rparr>)"
    using Suc.prems(1) by (rule device_advance_out)
  have faults: "outFaults (d\<lparr>outFaults := drop 1 (outFaults d)\<rparr>) =
      replicate f None @ Some e # rest"
    using Suc.prems(2) by simp
  have bound: "(k + 1) + f < chunk_count buffer" using Suc.prems(3) by simp
  have up: "[k..<k + Suc f] = k # [k + 1..<(k + 1) + f]" by (simp add: upt_conv_Cons)
  have "sendRawPayload_loop buffer k (int (length buffer - k * BULK_TRANSFER_SIZE)) fd =
        sendRawPayload_loop buffer (k + 1)
          (int (length buffer - (k + 1) * BULK_TRANSFER_SIZE)) ?fd"
    using k first
    by (simp only: sendRawPayload_loop_round [OF Suc.prems(1)] option.case)
  also have "\<dots> = Some (Throw e,
       with_effects (concat (map (round_effects (epOut ?fd) buffer None) [k + 1..<(k + 1) + f])
                     @ round_effects (epOut ?fd) buffer (Some e) ((k + 1) + f))
         (advance_out (f + 1) ?fd))"
    using dev faults bound by (rule Suc.IH)
  also have "\<dots> = Some (Throw e,
       with_effects (concat (map (round_effects (epOut fd) buffer None) [k..<k + Suc f])
                     @ round_effects (epOut fd) buffer (Some e) (k + Suc f))
         (advance_out (Suc f + 1) fd))"
  proof -
    have "advance_out (f + 1) ?fd =
        with_effects (round_effects (epOut fd) buffer None k) (advance_out (Suc f + 1) fd)"
      by (simp add: advance_out_with_effects advance_out_add)
    moreover have "(k + 1) + f = k + Suc f" by simp
    ultimately show ?thesis
      by (simp only: epOut_advance_out up with_effects_append list.map concat.simps
          append_assoc)
  qed
  finally show ?case .
qed

lemma chunks_concat_take:
  "concat (map (chunk_of buffer) [0..<m]) = take (m * BULK_TRANSFER_SIZE) buffer"
proof (induction m)
  case 0
  show ?case by simp
next
  case (Suc m)
  have "take (m * BULK_TRANSFER_SIZE + BULK_TRANSFER_SIZE) buffer =
        take (m * BULK_TRANSFER_SIZE) buffer @ chunk_of buffer m"
    by (simp only: take_add chunk_take_drop)
  with Suc show ?case by (simp add: add.commute)
qed

lemma chunks_concat: "concat (map (chunk_of buffer) [0..<chunk_count buffer]) = buffer"
proof -
  have "\<not> chunk_count buffer * BULK_TRANSFER_SIZE < length buffer"
    using chunk_count_less [of "chunk_count buffer" buffer] by simp
  then show ?thesis by (simp add: chunks_concat_take)
qed

lemma chunk_bounds:
  assumes "j < chunk_count buffer"
  shows "0 < length (chunk_of buffer j)" and "length (chunk_of buffer j) \<le> 16384"
  using assms
  by (simp_all add: chunk_length chunk_count_less BULK_TRANSFER_SIZE_def)

lemma sendRawPayload_ok:
  assumes "device fd = Some d"
    and "\<forall>r \<in> set (take (chunk_count buffer) (outFaults d)). r = None"
  shows "sendRawPayload buffer fd =
     Some (Return (),
       with_effects (concat (map (round_effects (epOut fd) buffer None) [0..<chunk_count buffer])
                     @ [Progress 1])
         (advance_out (chunk_count buffer) fd))"
proof -
  have "sendRawPayload_loop buffer 0 (int (length buffer - 0 * BULK_TRANSFER_SIZE)) fd =
     Some (Return (),
       with_effects (concat (map (round_effects (epOut fd) buffer None) [0..<chunk_count buffer]))
         (advance_out (chunk_count buffer - 0) fd))"
    using assms by (intro sendRawPayload_loop_ok) simp_all
  then show ?thesis
    by (simp add: sendRawPayload_def onProgress_def with_effects_def)
qed

lemma sendRawPayload_fail:
  assumes "device fd = Some d" and "outFaults d = replicate f None @ Some e # rest"
    and "f < chunk_count buffer"
  shows "sendRawPayload buffer fd =
     Some (Throw e,
       with_effects (concat (map (round_effects (epOut fd) buffer None) [0..<f])
                     @ round_effects (epOut fd) buffer (Some e) f)
         (advance_out (f + 1) fd))"
proof -
  have "sendRawPayload_loop buffer 0 (int (length buffer - 0 * BULK_TRANSFER_SIZE)) fd =
     Some (Throw e,
       with_effects (concat (map (round_effects (epOut fd) buffer None) [0..<0 + f])
                     @ round_effects (epOut fd) buffer (Some e) (0 + f))
         (advance_out (f + 1) fd))"
    using assms by (intro sendRawPayload_loop_fail) simp_all
  then show ?thesis
    by (simp add: sendRawPayload_def)
qed

lemma sendRawPayload_empty: "sendRawPayload [] fd = Some (Return (), with_effects [Progress 1] fd)"
  by (simp add: sendRawPayload_def sendRawPayload_loop.simps [of "[]"] onProgress_def
      with_effects_def)

lemma sendRawPayload_unbound:
  assumes "device fd = None" and "buffer \<noteq> []"
  shows "sendRawPayload buffer fd = Some (Throw TypeError, with_effects [Progress 0] fd)"
  using assms
  by (simp add: sendRawPayload_def sendRawPayload_loop.simps [of buffer 0] onProgress_def
      with_effects_def transferOut_def Let_def)

lemma first_fault:
  assumes "\<not> (\<forall>r \<in> set (take n fs). r = None)"
  shows "\<exists>f e rest. fs = replicate f None @ Some e # rest \<and> f < n"
proof -
  from assms obtain r where r: "r \<in> set (take n fs)" "r \<noteq> None" by blast
  then obtain ys zs e where split: "take n fs = ys @ Some e # zs" "\<forall>y \<in> set ys. y = None"
    using split_list_first_prop [of "take n fs" "\<lambda>r. r \<noteq> None"] by fastforce
  have ys: "ys = replicate (length ys) None"
    using split(2) by (simp add: replicate_length_same)
  have len: "length ys < n"
  proof -
    have "length (take n fs) \<le> n" by simp
    with split(1) show ?thesis by simp
  qed
  have "fs = take n fs @ drop n fs" by simp
  with split(1) have "fs = ys @ Some e # (zs @ drop n fs)" by simp
  with ys len show ?thesis by metis
qed

lemma sendRawPayload_settles: "\<exists>res. sendRawPayload buffer fd = Some res"
proof (cases "device fd")
  case None
  then show ?thesis
    by (cases "buffer = []") (simp_all add: sendRawPayload_empty sendRawPayload_unbound)
next
  case (Some d)
  show ?thesis
  proof (cases "\<forall>r \<in> set (take (chunk_count buffer) (outFaults d)). r = None")
    case True
    with Some show ?thesis by (simp add: sendRawPayload_ok)
  next
    case False
    from first_fault [OF this] obtain f e rest where
      "outFaults d = replicate f None @ Some e # rest" "f < chunk_count buffer" by blast
    with Some show ?thesis by (simp add: sendRawPayload_fail)
  qed
qed

lemma out_transfers_append: "out_transfers (xs @ ys) = out_transfers xs @ out_transfers ys"
  by (induction xs rule: out_transfers.induct) simp_all

lemma progress_calls_append: "progress_calls (xs @ ys) = progress_calls xs @ progress_calls ys"
  by (induction xs rule: progress_calls.induct) simp_all

lemma progress_calls_member: "Progress v \<in> set es \<Longrightarrow> v \<in> set (progress_calls es)"
  by (induction es rule: progress_calls.induct) auto

lemma out_transfers_rounds:
  "out_transfers (concat (map (round_effects ep buffer r) ks)) =
   map (\<lambda>j. (ep, chunk_of buffer j, r)) ks"
  by (induction ks) (simp_all add: round_effects_def)

lemma progress_calls_rounds:
  "progress_calls (concat (map (round_effects ep buffer r) ks)) =
   map (\<lambda>j. of_nat (j * BULK_TRANSFER_SIZE) / of_nat (length buffer)) ks"
  by (induction ks) (simp_all add: round_effects_def)

lemma sent_so_far:
  assumes "j < chunk_count buffer"
  shows "length (concat (map (chunk_of buffer) [0..<j])) = j * BULK_TRANSFER_SIZE"
  using assms by (simp add: chunks_concat_take chunk_count_less)

lemma fraction_bounds:
  assumes "j < chunk_count buffer"
  shows "0 \<le> (of_nat (j * BULK_TRANSFER_SIZE) / of_nat (length buffer) :: rat)"
    and "(of_nat (j * BULK_TRANSFER_SIZE) / of_nat (length buffer) :: rat) < 1"
proof -
  from assms have lt: "j * BULK_TRANSFER_SIZE < length buffer" by (simp only: chunk_count_less)
  show "0 \<le> (of_nat (j * BULK_TRANSFER_SIZE) / of_nat (length buffer) :: rat)" by simp
  from lt have "(of_nat (j * BULK_TRANSFER_SIZE) :: rat) < of_nat (length buffer)"
    by (simp only: of_nat_less_iff)
  moreover from lt have "(0 :: rat) < of_nat (length buffer)" by auto
  ultimately show "(of_nat (j * BULK_TRANSFER_SIZE) / of_nat (length buffer) :: rat) < 1"
    by (simp only: divide_less_eq_1_pos)
qed

lemma fractions_sorted:
  "sorted (map (\<lambda>j. of_nat (j * BULK_TRANSFER_SIZE) / of_nat (length buffer) :: rat) [0..<m])"
proof -
  have "sorted_wrt (\<lambda>i j. (of_nat (i * BULK_TRANSFER_SIZE) / of_nat (length buffer) :: rat)
          \<le> of_nat (j * BULK_TRANSFER_SIZE) / of_nat (length buffer)) [0..<m]"
  proof (rule sorted_wrt_mono_rel [of _ "(\<le>)"])
    fix i j :: nat
    assume "i \<le> j"
    then have "(of_nat (i * BULK_TRANSFER_SIZE) :: rat) \<le> of_nat (j * BULK_TRANSFER_SIZE)"
      by (simp only: of_nat_le_iff mult_le_mono1)
    then show "(of_nat (i * BULK_TRANSFER_SIZE) / of_nat (length buffer) :: rat)
        \<le> of_nat (j * BULK_TRANSFER_SIZE) / of_nat (length buffer)"
      by (rule divide_right_mono) simp
  next
    show "sorted_wrt (\<le>) [0..<m]" by simp
  qed
  then show ?thesis by (simp only: sorted_wrt_map)
qed

text \<open>
  Claim C4. \<open>sendRawPayload\<close> always settles. The chunks of a buffer are its consecutive
  windows of 16384 bytes, none empty and none longer than 16384 bytes, and put together in
  order they are the buffer. When no \<open>transferOut\<close> fails, the send returns after having
  passed exactly these chunks, in order, to the OUT endpoint: the data transferred, put
  together in the order of the transfers, is the buffer. (The buffer is a value here: the
  source reads it through \<open>byteLength\<close> and \<open>slice\<close> only, and \<open>slice\<close> copies.)
\<close>

theorem sendRawPayload_chunks:
  "(\<forall>buffer fd. \<exists>res. sendRawPayload buffer fd = Some res)
   \<and> (\<forall>buffer.
        concat (map (chunk_of buffer) [0..<chunk_count buffer]) = buffer \<and>
        (\<forall>j < chunk_count buffer.
           chunk_of buffer j = take 16384 (drop (j * 16384) buffer) \<and>
           0 < length (chunk_of buffer j) \<and> length (chunk_of buffer j) \<le> 16384))
   \<and> (\<forall>buffer fd d.
        device fd = Some d \<and>
        (\<forall>r \<in> set (take (chunk_count buffer) (outFaults d)). r = None) \<longrightarrow>
        (\<exists>new.
           sendRawPayload buffer fd =
             Some (Return (), with_effects new (advance_out (chunk_count buffer) fd)) \<and>
           out_transfers new =
             map (\<lambda>j. (epOut fd, chunk_of buffer j, None)) [0..<chunk_count buffer] \<and>
           concat (map (\<lambda>t. fst (snd t)) (out_transfers new)) = buffer \<and>
           (\<forall>t \<in> set (out_transfers new). length (fst (snd t)) \<le> 16384)))"
proof (intro conjI allI impI)
  fix buffer fd
  show "\<exists>res. sendRawPayload buffer fd = Some res" by (rule sendRawPayload_settles)
next
  fix buffer
  show "concat (map (chunk_of buffer) [0..<chunk_count buffer]) = buffer"
    by (rule chunks_concat)
next
  fix buffer j
  show "chunk_of buffer j = take 16384 (drop (j * 16384) buffer)"
    using chunk_take_drop [of buffer j] by (simp add: BULK_TRANSFER_SIZE_def)
next
  fix buffer j
  assume "j < chunk_count buffer"
  then show "0 < length (chunk_of buffer j)" by (rule chunk_bounds)
next
  fix buffer j
  assume "j < chunk_count buffer"
  then show "length (chunk_of buffer j) \<le> 16384" by (rule chunk_bounds)
next
  fix buffer :: bytes and fd :: fastboot_device and d :: usb_device
  assume a: "device fd = Some d \<and>
        (\<forall>r \<in> set (take (chunk_count buffer) (outFaults d)). r = None)"
  let ?new = "concat (map (round_effects (epOut fd) buffer None) [0..<chunk_count buffer])
              @ [Progress 1]"
  have tr: "out_transfers ?new =
      map (\<lambda>j. (epOut fd, chunk_of buffer j, None)) [0..<chunk_count buffer]"
    by (simp add: out_transfers_append out_transfers_rounds)
  have f1: "sendRawPayload buffer fd =
      Some (Return (), with_effects ?new (advance_out (chunk_count buffer) fd))"
    using a by (intro sendRawPayload_ok) blast+
  have f2: "concat (map (\<lambda>t. fst (snd t)) (out_transfers ?new)) = buffer"
    by (simp only: tr map_map o_def fst_conv snd_conv chunks_concat)
  have f3: "\<forall>t \<in> set (out_transfers ?new). length (fst (snd t)) \<le> 16384"
    by (simp only: tr) (auto simp: chunk_bounds)
  show "\<exists>new.
           sendRawPayload buffer fd =
             Some (Return (), with_effects new (advance_out (chunk_count buffer) fd)) \<and>
           out_transfers new =
             map (\<lambda>j. (epOut fd, chunk_of buffer j, None)) [0..<chunk_count buffer] \<and>
           concat (map (\<lambda>t. fst (snd t)) (out_transfers new)) = buffer \<and>
           (\<forall>t \<in> set (out_transfers new). length (fst (snd t)) \<le> 16384)"
    by (intro exI [of _ ?new] conjI f1 tr f2 f3)
qed

lemma chunk_count_20000: "chunk_count (replicate 20000 x) = 2"
  by (simp add: chunk_count_def BULK_TRANSFER_SIZE_def)

lemma chunks_20000:
  "chunk_of (replicate 20000 x) 0 = replicate 16384 x"
  "chunk_of (replicate 20000 x) 1 = replicate 3616 x"
  "chunk_of (replicate 20000 x) (Suc 0) = replicate 3616 x"
  by (simp_all add: chunk_of_def slice_def BULK_TRANSFER_SIZE_def Let_def)

lemma upt_0_2: "[0..<2] = [0, 1]"
  by (simp add: numeral_2_eq_2)

lemma advance_out_bound_client:
  "advance_out m (bound_client p fs) = bound_client p (drop m fs)"
  by (simp add: advance_out_def bound_client_def)

lemma epOut_bound_client: "epOut (bound_client p fs) = Some 2"
  by (simp add: bound_client_def)

theorem sendRawPayload_chunks_witness:
  "(\<exists>res. sendRawPayload (replicate 20000 7) (bound_client [] []) = Some res)
   \<and> concat (map (chunk_of (replicate 20000 7)) [0..<chunk_count (replicate 20000 7)]) =
       replicate 20000 7
   \<and> chunk_of (replicate 20000 7) 1 = take 16384 (drop (1 * 16384) (replicate 20000 7))
   \<and> 0 < length (chunk_of (replicate 20000 7) 1)
   \<and> length (chunk_of (replicate 20000 7) 1) \<le> 16384
   \<and> (\<exists>new.
         sendRawPayload (replicate 20000 7) (bound_client [] []) =
           Some (Return (), with_effects new (bound_client [] [])) \<and>
         out_transfers new =
           [(Some 2, replicate 16384 7, None), (Some 2, replicate 3616 7, None)] \<and>
         concat (map (\<lambda>t. fst (snd t)) (out_transfers new)) = replicate 20000 7 \<and>
         (\<forall>t \<in> set (out_transfers new). length (fst (snd t)) \<le> 16384))"
proof -
  note claim = sendRawPayload_chunks
  let ?B = "replicate 20000 (7 :: byte)"
  let ?F = "bound_client [] []"
  have 1: "\<exists>res. sendRawPayload ?B ?F = Some res"
    using claim [THEN conjunct1] by blast
  have 2: "concat (map (chunk_of ?B) [0..<chunk_count ?B]) = ?B"
    using claim [THEN conjunct2, THEN conjunct1] by blast
  have 3: "chunk_of ?B 1 = take 16384 (drop (1 * 16384) ?B) \<and>
           0 < length (chunk_of ?B 1) \<and> length (chunk_of ?B 1) \<le> 16384"
    using claim [THEN conjunct2, THEN conjunct1, rule_format, of ?B]
    by (simp add: chunk_count_20000)
  have 4: "\<exists>new.
         sendRawPayload ?B ?F = Some (Return (), with_effects new ?F) \<and>
         out_transfers new =
           [(Some 2, replicate 16384 7, None), (Some 2, replicate 3616 7, None)] \<and>
         concat (map (\<lambda>t. fst (snd t)) (out_transfers new)) = ?B \<and>
         (\<forall>t \<in> set (out_transfers new). length (fst (snd t)) \<le> 16384)"
    using claim [THEN conjunct2, THEN conjunct2, rule_format, of ?F _ ?B]
    by (simp add: device_bound_client chunk_count_20000 chunks_20000 advance_out_bound_client
        epOut_bound_client upt_0_2)
  from 1 2 3 4 show ?thesis by blast
qed

text \<open>
  Claim C5. When no \<open>transferOut\<close> fails, the effects of a send are, chunk after chunk,
  the call of \<open>onProgress\<close> with the bytes sent so far divided by the buffer's length and
  then the transfer of the chunk, and last the call \<open>onProgress(1)\<close>. The fractions
  reported lie between 0 and 1, never decrease, and end with 1. For the empty buffer the
  one effect is \<open>onProgress(1)\<close>, whatever the client is bound to. A buffer of 20000
  bytes is sent as 16384 and 3616 bytes with the fractions 0, 16384/20000 and 1.
\<close>

theorem sendRawPayload_progress:
  "(\<forall>buffer fd d.
      device fd = Some d \<and>
      (\<forall>r \<in> set (take (chunk_count buffer) (outFaults d)). r = None) \<longrightarrow>
      (\<exists>new.
         sendRawPayload buffer fd =
           Some (Return (), with_effects new (advance_out (chunk_count buffer) fd)) \<and>
         new = concat (map (\<lambda>j.
                   [Progress (of_nat (length (concat (map (chunk_of buffer) [0..<j])))
                              / of_nat (length buffer)),
                    TransferOut (epOut fd) (chunk_of buffer j) None])
                 [0..<chunk_count buffer]) @ [Progress 1] \<and>
         progress_calls new =
           map (\<lambda>j. of_nat (j * 16384) / of_nat (length buffer)) [0..<chunk_count buffer]
           @ [1] \<and>
         (\<forall>v \<in> set (progress_calls new). 0 \<le> v \<and> v \<le> 1) \<and>
         sorted (progress_calls new) \<and> last (progress_calls new) = 1))
   \<and> (\<forall>fd. sendRawPayload [] fd = Some (Return (), with_effects [Progress 1] fd))
   \<and> (\<forall>buffer fd d.
      device fd = Some d \<and> (\<forall>r \<in> set (take 2 (outFaults d)). r = None) \<and>
      length buffer = 20000 \<longrightarrow>
      (\<exists>new.
         sendRawPayload buffer fd = Some (Return (), with_effects new (advance_out 2 fd)) \<and>
         map (\<lambda>t. length (fst (snd t))) (out_transfers new) = [16384, 3616] \<and>
         progress_calls new = [0, 16384 / 20000, 1]))"
proof (intro conjI allI impI)
  fix buffer :: bytes and fd :: fastboot_device and d :: usb_device
  assume a: "device fd = Some d \<and>
      (\<forall>r \<in> set (take (chunk_count buffer) (outFaults d)). r = None)"
  let ?n = "chunk_count buffer"
  let ?new = "concat (map (round_effects (epOut fd) buffer None) [0..<?n]) @ [Progress 1]"
  let ?fr = "map (\<lambda>j. of_nat (j * 16384) / of_nat (length buffer) :: rat) [0..<?n]"
  have run: "sendRawPayload buffer fd = Some (Return (), with_effects ?new (advance_out ?n fd))"
    using a by (intro sendRawPayload_ok) blast+
  have "map (round_effects (epOut fd) buffer None) [0..<?n] =
        map (\<lambda>j. [Progress (of_nat (length (concat (map (chunk_of buffer) [0..<j])))
                              / of_nat (length buffer)),
                    TransferOut (epOut fd) (chunk_of buffer j) None]) [0..<?n]"
    by (rule map_cong) (simp_all add: round_effects_def sent_so_far)
  then have shape: "?new = concat (map (\<lambda>j.
                   [Progress (of_nat (length (concat (map (chunk_of buffer) [0..<j])))
                              / of_nat (length buffer)),
                    TransferOut (epOut fd) (chunk_of buffer j) None])
                 [0..<?n]) @ [Progress 1]"
    by (simp only:)
  have calls: "progress_calls ?new = ?fr @ [1]"
    by (simp add: progress_calls_append progress_calls_rounds BULK_TRANSFER_SIZE_def)
  have range: "\<forall>v \<in> set (?fr @ [1]). 0 \<le> v \<and> v \<le> 1"
    using fraction_bounds by (auto simp: BULK_TRANSFER_SIZE_def less_imp_le)
  have sorted: "sorted (?fr @ [1])"
    using fractions_sorted [of buffer ?n] range
    by (simp add: sorted_append BULK_TRANSFER_SIZE_def)
  have "last (?fr @ [1]) = 1" by simp
  with run shape calls range sorted
  show "\<exists>new.
         sendRawPayload buffer fd =
           Some (Return (), with_effects new (advance_out (chunk_count buffer) fd)) \<and>
         new = concat (map (\<lambda>j.
                   [Progress (of_nat (length (concat (map (chunk_of buffer) [0..<j])))
                              / of_nat (length buffer)),
                    TransferOut (epOut fd) (chunk_of buffer j) None])
                 [0..<chunk_count buffer]) @ [Progress 1] \<and>
         progress_calls new =
           map (\<lambda>j. of_nat (j * 16384) / of_nat (length buffer)) [0..<chunk_count buffer]
           @ [1] \<and>
         (\<forall>v \<in> set (progress_calls new). 0 \<le> v \<and> v \<le> 1) \<and>
         sorted (progress_calls new) \<and> last (progress_calls new) = 1"
    by (intro exI [of _ ?new]) (simp only: simp_thms)
next
  fix fd
  show "sendRawPayload [] fd = Some (Return (), with_effects [Progress 1] fd)"
    by (rule sendRawPayload_empty)
next
  fix buffer :: bytes and fd :: fastboot_device and d :: usb_device
  assume a: "device fd = Some d \<and> (\<forall>r \<in> set (take 2 (outFaults d)). r = None) \<and>
      length buffer = 20000"
  then have n: "chunk_count buffer = 2"
    by (simp add: chunk_count_def BULK_TRANSFER_SIZE_def)
  let ?new = "concat (map (round_effects (epOut fd) buffer None) [0..<2]) @ [Progress 1]"
  have f1: "sendRawPayload buffer fd = Some (Return (), with_effects ?new (advance_out 2 fd))"
    using a sendRawPayload_ok [of fd d buffer] by (simp only: n) blast
  have f2: "map (\<lambda>t. length (fst (snd t))) (out_transfers ?new) = [16384, 3616]"
    using a
    by (simp add: out_transfers_append round_effects_def chunk_length
        BULK_TRANSFER_SIZE_def upt_0_2)
  have f3: "progress_calls ?new = [0, 16384 / 20000, 1]"
    using a
    by (simp add: progress_calls_append round_effects_def BULK_TRANSFER_SIZE_def upt_0_2)
  show "\<exists>new.
         sendRawPayload buffer fd = Some (Return (), with_effects new (advance_out 2 fd)) \<and>
         map (\<lambda>t. length (fst (snd t))) (out_transfers new) = [16384, 3616] \<and>
         progress_calls new = [0, 16384 / 20000, 1]"
    by (intro exI [of _ ?new] conjI f1 f2 f3)
qed

theorem sendRawPayload_progress_witness:
  "(\<exists>new.
      sendRawPayload (replicate 20000 7) (bound_client [] []) =
        Some (Return (), with_effects new (bound_client [] [])) \<and>
      new = [Progress 0, TransferOut (Some 2) (replicate 16384 7) None,
             Progress (16384 / 20000), TransferOut (Some 2) (replicate 3616 7) None,
             Progress 1] \<and>
      progress_calls new = [0, 16384 / 20000, 1] \<and>
      (\<forall>v \<in> set (progress_calls new). 0 \<le> v \<and> v \<le> 1) \<and>
      sorted (progress_calls new) \<and> last (progress_calls new) = 1)
   \<and> sendRawPayload [] constructor = Some (Return (), with_effects [Progress 1] constructor)
   \<and> (\<exists>new.
      sendRawPayload (replicate 20000 7) (bound_client [] []) =
        Some (Return (), with_effects new (bound_client [] [])) \<and>
      map (\<lambda>t. length (fst (snd t))) (out_transfers new) = [16384, 3616] \<and>
      progress_calls new = [0, 16384 / 20000, 1])"
proof -
  note claim = sendRawPayload_progress
  let ?B = "replicate 20000 (7 :: byte)"
  let ?F = "bound_client [] []"
  have 1: "\<exists>new.
      sendRawPayload ?B ?F = Some (Return (), with_effects new ?F) \<and>
      new = [Progress 0, TransferOut (Some 2) (replicate 16384 7) None,
             Progress (16384 / 20000), TransferOut (Some 2) (replicate 3616 7) None,
             Progress 1] \<and>
      progress_calls new = [0, 16384 / 20000, 1] \<and>
      (\<forall>v \<in> set (progress_calls new). 0 \<le> v \<and> v \<le> 1) \<and>
      sorted (progress_calls new) \<and> last (progress_calls new) = 1"
    using claim [THEN conjunct1, rule_format, of ?F _ ?B]
    by (simp add: device_bound_client chunk_count_20000 chunks_20000 advance_out_bound_client
        epOut_bound_client upt_0_2)
  have 2: "sendRawPayload [] constructor = Some (Return (), with_effects [Progress 1] constructor)"
    using claim [THEN conjunct2, THEN conjunct1] by blast
  have 3: "\<exists>new.
      sendRawPayload ?B ?F = Some (Return (), with_effects new ?F) \<and>
      map (\<lambda>t. length (fst (snd t))) (out_transfers new) = [16384, 3616] \<and>
      progress_calls new = [0, 16384 / 20000, 1]"
    using claim [THEN conjunct2, THEN conjunct2, rule_format, of ?F _ ?B]
    by (simp add: device_bound_client advance_out_bound_client)
  from 1 2 3 show ?thesis by (intro conjI)
qed

text \<open>
  Claim C9. When the \<open>transferOut\<close> of a chunk rejects, \<open>sendRawPayload\<close> throws what
  the transfer rejected with. The transfers made are those of the chunks before it and
  the failed one, nothing after it; \<open>onProgress\<close> was called once before each of them
  with a fraction below 1, and \<open>onProgress(1)\<close> is not called.
\<close>

theorem sendRawPayload_transfer_failure:
  "\<forall>buffer fd d f e rest.
     device fd = Some d \<and> outFaults d = replicate f None @ Some e # rest \<and>
     f < chunk_count buffer \<longrightarrow>
     (\<exists>new.
        sendRawPayload buffer fd = Some (Throw e, with_effects new (advance_out (f + 1) fd)) \<and>
        out_transfers new =
          map (\<lambda>j. (epOut fd, chunk_of buffer j, None)) [0..<f]
          @ [(epOut fd, chunk_of buffer f, Some e)] \<and>
        progress_calls new =
          map (\<lambda>j. of_nat (j * 16384) / of_nat (length buffer)) [0..<f + 1] \<and>
        (\<forall>v \<in> set (progress_calls new). v < 1) \<and>
        Progress 1 \<notin> set new \<and>
        (\<exists>before. new = before @ [TransferOut (epOut fd) (chunk_of buffer f) (Some e)]))"
proof (intro allI impI)
  fix buffer :: bytes and fd :: fastboot_device and d :: usb_device and f e rest
  assume a: "device fd = Some d \<and> outFaults d = replicate f None @ Some e # rest \<and>
     f < chunk_count buffer"
  let ?ok = "concat (map (round_effects (epOut fd) buffer None) [0..<f])"
  let ?new = "?ok @ round_effects (epOut fd) buffer (Some e) f"
  let ?fr = "\<lambda>j. of_nat (j * 16384) / of_nat (length buffer) :: rat"
  have f1: "sendRawPayload buffer fd = Some (Throw e, with_effects ?new (advance_out (f + 1) fd))"
    using a by (intro sendRawPayload_fail) blast+
  have f2: "out_transfers ?new =
      map (\<lambda>j. (epOut fd, chunk_of buffer j, None)) [0..<f]
      @ [(epOut fd, chunk_of buffer f, Some e)]"
    by (simp add: out_transfers_append out_transfers_rounds) (simp add: round_effects_def)
  have f3: "progress_calls ?new = map ?fr [0..<f + 1]"
    by (simp add: progress_calls_append progress_calls_rounds BULK_TRANSFER_SIZE_def)
       (simp add: round_effects_def BULK_TRANSFER_SIZE_def)
  have below: "?fr j < 1" if "j < f + 1" for j
  proof -
    from that a have "j < chunk_count buffer" by simp
    from fraction_bounds(2) [OF this] show ?thesis by (simp add: BULK_TRANSFER_SIZE_def)
  qed
  have f4: "\<forall>v \<in> set (progress_calls ?new). v < 1"
    unfolding f3 using below by auto
  have f5: "Progress 1 \<notin> set ?new"
  proof
    assume "Progress 1 \<in> set ?new"
    then have "1 \<in> set (progress_calls ?new)" by (rule progress_calls_member)
    with f4 show False by blast
  qed
  have f6: "\<exists>before. ?new = before @ [TransferOut (epOut fd) (chunk_of buffer f) (Some e)]"
    by (rule exI [of _ "?ok @ [Progress (?fr f)]"])
       (simp add: round_effects_def BULK_TRANSFER_SIZE_def)
  show "\<exists>new.
        sendRawPayload buffer fd = Some (Throw e, with_effects new (advance_out (f + 1) fd)) \<and>
        out_transfers new =
          map (\<lambda>j. (epOut fd, chunk_of buffer j, None)) [0..<f]
          @ [(epOut fd, chunk_of buffer f, Some e)] \<and>
        progress_calls new =
          map (\<lambda>j. of_nat (j * 16384) / of_nat (length buffer)) [0..<f + 1] \<and>
        (\<forall>v \<in> set (progress_calls new). v < 1) \<and>
        Progress 1 \<notin> set new \<and>
        (\<exists>before. new = before @ [TransferOut (epOut fd) (chunk_of buffer f) (Some e)])"
    by (intro exI [of _ ?new] conjI f1 f2 f3 f4 f5 f6)
qed

theorem sendRawPayload_transfer_failure_witness:
  "\<exists>new.
     sendRawPayload (replicate 40000 7)
       (bound_client [] [None, Some (DOMException ''NetworkError''), None]) =
       Some (Throw (DOMException ''NetworkError''), with_effects new (bound_client [] [None])) \<and>
     out_transfers new =
       [(Some 2, replicate 16384 7, None),
        (Some 2, replicate 16384 7, Some (DOMException ''NetworkError''))] \<and>
     progress_calls new = [0, 16384 / 40000] \<and>
     (\<forall>v \<in> set (progress_calls new). v < 1) \<and>
     Progress 1 \<notin> set new \<and>
     (\<exists>before. new = before @
        [TransferOut (Some 2) (replicate 16384 7) (Some (DOMException ''NetworkError''))])"
proof -
  let ?B = "replicate 40000 (7 :: byte)"
  let ?e = "DOMException ''NetworkError''"
  let ?F = "bound_client [] [None, Some ?e, None]"
  have n: "(1 :: nat) < chunk_count ?B"
    by (simp add: chunk_count_def BULK_TRANSFER_SIZE_def)
  have c: "chunk_of ?B 0 = replicate 16384 7" "chunk_of ?B 1 = replicate 16384 7"
    "chunk_of ?B (Suc 0) = replicate 16384 7"
    by (simp_all add: chunk_of_def slice_def BULK_TRANSFER_SIZE_def Let_def)
  have faults: "[None, Some ?e, None] = replicate 1 None @ Some ?e # [None]" by simp
  show ?thesis
    using sendRawPayload_transfer_failure [rule_format, of ?F _ 1 ?e "[None]" ?B] n
    by (simp add: device_bound_client advance_out_bound_client epOut_bound_client c)
qed

section \<open>Properties of runCommand\<close>

lemma effects_consume: "effects (consume q fd) = effects fd"
  by (simp add: consume_def)

lemma readResponse_loop_effects:
  "effects (snd (readResponse_loop rd fd)) = effects fd"
proof (cases "device fd")
  case None
  then show ?thesis by (simp add: readResponse_loop_unbound)
next
  case (Some d)
  define q where "q = inQueue d"
  from Some q_def show ?thesis
  proof (induction q arbitrary: rd fd d)
    case Nil
    then show ?case by (simp add: readResponse_loop_empty)
  next
    case (Cons x q)
    show ?case
    proof (cases x)
      case (Inl e)
      with Cons.prems show ?thesis
        by (simp add: readResponse_loop_reject [of fd d e q] effects_consume)
    next
      case (Inr data)
      have dq: "inQueue d = Inr data # q" using Cons.prems(2) Inr by simp
      have dev: "device (consume q fd) = Some (d\<lparr>inQueue := q\<rparr>)"
        using Cons.prems(1) by (simp add: device_consume)
      have "effects (snd (readResponse_loop rd' (consume q fd))) = effects fd" for rd'
        using Cons.IH [OF dev, of rd'] by (simp add: effects_consume)
      then show ?thesis
        by (simp add: readResponse_loop_packet [OF Cons.prems(1) dq] effects_consume)
    qed
  qed
qed

lemma readResponse_effects: "effects (snd (readResponse fd)) = effects fd"
  by (simp add: readResponse_def readResponse_loop_effects)

lemma runCommand_too_long: "64 < length command \<Longrightarrow> runCommand command fd = (Throw RangeError, fd)"
  by (simp add: runCommand_def)

lemma runCommand_bound:
  assumes "length command \<le> 64" and "device fd = Some d"
  shows "runCommand command fd =
     (case next_outcome d of
        None \<Rightarrow>
          readResponse
            (with_effects [TransferOut (epOut fd) (TextEncoder_encode command) None]
               (advance_out 1 fd))
      | Some e \<Rightarrow>
          (Throw e,
           with_effects [TransferOut (epOut fd) (TextEncoder_encode command) (Some e)]
             (advance_out 1 fd)))"
  using assms
  by (simp add: runCommand_def transferOut_bound [OF assms(2)] Let_def split: option.splits)

lemma effects_with_effects: "effects (with_effects new (advance_out m fd)) = effects fd @ new"
  by (simp add: with_effects_def advance_out_def)

lemma runCommand_one_transfer:
  assumes "length command \<le> 64" and "device fd = Some d"
  shows "effects (snd (runCommand command fd)) =
         effects fd @ [TransferOut (epOut fd) (TextEncoder_encode command) (next_outcome d)]"
  using assms
  by (cases "next_outcome d")
     (simp_all add: runCommand_bound readResponse_effects effects_with_effects)

lemma scalar_values_no_surrogate:
  "\<forall>u \<in> set s. \<not> is_high_surrogate u \<and> \<not> is_low_surrogate u \<Longrightarrow>
   scalar_values s = map unat s"
  by (induction s rule: scalar_values.induct) (simp_all add: lone_unit_def)

lemma scalar_values_ascii:
  "\<forall>u \<in> set s. unat u < 128 \<Longrightarrow> scalar_values s = map unat s"
  by (rule scalar_values_no_surrogate)
     (auto simp: is_high_surrogate_def is_low_surrogate_def)

lemma TextEncoder_encode_ascii:
  assumes "\<forall>u \<in> set s. unat u < 128"
  shows "TextEncoder_encode s = map (\<lambda>u. of_nat (unat u)) s"
proof -
  have "concat (map utf8_bytes (map unat s)) = map (\<lambda>u. of_nat (unat u)) s"
    using assms by (induction s) (simp_all add: utf8_bytes_def)
  with assms show ?thesis by (simp add: TextEncoder_encode_def scalar_values_ascii)
qed

text \<open>
  Claim C6. A command of more than 64 code units makes \<open>runCommand\<close> throw a RangeError
  with the client as it was: nothing is transferred and nothing is read. For a command of
  ASCII characters the length is the number of bytes sent, so a command of 65 ASCII
  characters fails this way. A command of at most 64 code units is encoded and passed to
  the OUT endpoint in one transfer; when that transfer resolves the result is that of
  \<open>readResponse\<close>, and when it rejects the rejection is thrown. Either way the call adds
  exactly this one effect: there is no second transfer.
\<close>

theorem runCommand_length_guard:
  "(\<forall>command fd. 64 < length command \<longrightarrow> runCommand command fd = (Throw RangeError, fd))
   \<and> (\<forall>command.
        (\<forall>u \<in> set command. unat u < 128) \<longrightarrow>
        length (TextEncoder_encode command) = length command)
   \<and> (\<forall>fd. runCommand (js (replicate 65 CHR ''a'')) fd = (Throw RangeError, fd))
   \<and> (\<forall>command fd d.
        length command \<le> 64 \<and> device fd = Some d \<and> next_outcome d = None \<longrightarrow>
        runCommand command fd =
          readResponse
            (with_effects [TransferOut (epOut fd) (TextEncoder_encode command) None]
               (advance_out 1 fd)))
   \<and> (\<forall>command fd d e.
        length command \<le> 64 \<and> device fd = Some d \<and> next_outcome d = Some e \<longrightarrow>
        runCommand command fd =
          (Throw e,
           with_effects [TransferOut (epOut fd) (TextEncoder_encode command) (Some e)]
             (advance_out 1 fd)))
   \<and> (\<forall>command fd d.
        length command \<le> 64 \<and> device fd = Some d \<longrightarrow>
        effects (snd (runCommand command fd)) =
          effects fd @ [TransferOut (epOut fd) (TextEncoder_encode command) (next_outcome d)])"
proof (intro conjI allI impI)
  fix command :: jsstring and fd :: fastboot_device
  assume "64 < length command"
  then show "runCommand command fd = (Throw RangeError, fd)" by (rule runCommand_too_long)
next
  fix command :: jsstring
  assume "\<forall>u \<in> set command. unat u < 128"
  then show "length (TextEncoder_encode command) = length command"
    by (simp add: TextEncoder_encode_ascii)
next
  fix fd :: fastboot_device
  show "runCommand (js (replicate 65 CHR ''a'')) fd = (Throw RangeError, fd)"
    by (rule runCommand_too_long) (simp add: js_def)
next
  fix command :: jsstring and fd :: fastboot_device and d :: usb_device
  assume "length command \<le> 64 \<and> device fd = Some d \<and> next_outcome d = None"
  then show "runCommand command fd =
          readResponse
            (with_effects [TransferOut (epOut fd) (TextEncoder_encode command) None]
               (advance_out 1 fd))"
    by (simp add: runCommand_bound)
next
  fix command :: jsstring and fd :: fastboot_device and d :: usb_device and e
  assume "length command \<le> 64 \<and> device fd = Some d \<and> next_outcome d = Some e"
  then show "runCommand command fd =
          (Throw e,
           with_effects [TransferOut (epOut fd) (TextEncoder_encode command) (Some e)]
             (advance_out 1 fd))"
    by (simp add: runCommand_bound)
next
  fix command :: jsstring and fd :: fastboot_device and d :: usb_device
  assume "length command \<le> 64 \<and> device fd = Some d"
  then show "effects (snd (runCommand command fd)) =
          effects fd @ [TransferOut (epOut fd) (TextEncoder_encode command) (next_outcome d)]"
    by (simp add: runCommand_one_transfer)
qed

lemma TextEncoder_encode_js:
  assumes "\<forall>c \<in> set s. (of_char c :: nat) < 128"
  shows "TextEncoder_encode (js s) = ascii s"
proof -
  have "\<forall>u \<in> set (js s). unat u < 128"
    using assms by (simp add: js_def unat_unit_of_char)
  then have "TextEncoder_encode (js s) = map (\<lambda>u. of_nat (unat u)) (js s)"
    by (rule TextEncoder_encode_ascii)
  also have "\<dots> = ascii s"
  proof -
    have "(of_nat (unat (of_char c :: code_unit)) :: byte) = of_char c" for c
      by (simp only: unat_unit_of_char of_nat_of_char)
    then show ?thesis by (simp only: js_def ascii_def map_map o_def)
  qed
  finally show ?thesis .
qed

lemma readResponse_one_OKAY:
  assumes "device fd = Some d" and "inQueue d = Inr ok # rest" and "respStatus ok = js ''OKAY''"
  shows "readResponse fd = (Return \<lparr>text' = respMessage ok, dataSize = None\<rparr>, consume rest fd)"
  using readResponse_infos_then_OKAY [OF assms(1), of "[]" ok rest] assms(2,3)
  by (simp add: info_lines_def)

theorem runCommand_length_guard_witness:
  "64 < length (js (replicate 65 CHR ''a''))
   \<and> runCommand (js (replicate 65 CHR ''a'')) (bound_client [Inr (ascii ''OKAYdone'')] []) =
       (Throw RangeError, bound_client [Inr (ascii ''OKAYdone'')] [])
   \<and> length (TextEncoder_encode (js ''getvar:all'')) = length (js ''getvar:all'')
   \<and> runCommand (js ''getvar:all'') (bound_client [Inr (ascii ''OKAYdone'')] []) =
       (Return \<lparr>text' = js ''done'', dataSize = None\<rparr>,
        with_effects [TransferOut (Some 2) (ascii ''getvar:all'') None] (bound_client [] []))
   \<and> runCommand (js ''getvar:all'')
         (bound_client [Inr (ascii ''OKAYdone'')] [Some (DOMException ''NetworkError'')]) =
       (Throw (DOMException ''NetworkError''),
        with_effects
          [TransferOut (Some 2) (ascii ''getvar:all'') (Some (DOMException ''NetworkError''))]
          (bound_client [Inr (ascii ''OKAYdone'')] []))
   \<and> effects (snd (runCommand (js ''getvar:all'') (bound_client [Inr (ascii ''OKAYdone'')] []))) =
       [TransferOut (Some 2) (ascii ''getvar:all'') None]"
proof -
  note claim = runCommand_length_guard
  let ?long = "js (replicate 65 CHR ''a'')"
  let ?cmd = "js ''getvar:all''"
  let ?F = "bound_client [Inr (ascii ''OKAYdone'')] []"
  let ?e = "DOMException ''NetworkError''"
  let ?G = "bound_client [Inr (ascii ''OKAYdone'')] [Some ?e]"
  have enc: "TextEncoder_encode ?cmd = ascii ''getvar:all''"
    by (rule TextEncoder_encode_js) simp
  have len: "64 < length ?long" by (simp add: js_def)
  have short: "length ?cmd \<le> 64" by (simp add: js_def)
  have 1: "runCommand ?long ?F = (Throw RangeError, ?F)"
    using claim [THEN conjunct1, rule_format, of ?long ?F] len by blast
  have "\<forall>u \<in> set ?cmd. unat u < 128" by (simp add: js_def unat_unit_of_char)
  then have 2: "length (TextEncoder_encode ?cmd) = length ?cmd"
    using claim [THEN conjunct2, THEN conjunct1, rule_format, of ?cmd] by blast
  have read: "readResponse (with_effects [TransferOut (Some 2) (ascii ''getvar:all'') None] ?F) =
      (Return \<lparr>text' = js ''done'', dataSize = None\<rparr>,
       with_effects [TransferOut (Some 2) (ascii ''getvar:all'') None] (bound_client [] []))"
  proof -
    have dev: "device (with_effects [TransferOut (Some 2) (ascii ''getvar:all'') None] ?F) =
        Some \<lparr>configurations = [], openResult = None, resetResult = None,
          selectConfigurationResult = None, claimInterfaceResult = None,
          inQueue = [Inr (ascii ''OKAYdone'')], outFaults = []\<rparr>"
      by (simp add: with_effects_def bound_client_def)
    show ?thesis
      using readResponse_one_OKAY [OF dev, of "ascii ''OKAYdone''" "[]"]
      by (simp add: respStatus_ascii respMessage_ascii)
         (simp add: with_effects_def bound_client_def consume_def)
  qed
  have 4: "runCommand ?cmd ?F =
       (Return \<lparr>text' = js ''done'', dataSize = None\<rparr>,
        with_effects [TransferOut (Some 2) (ascii ''getvar:all'') None] (bound_client [] []))"
    using claim [THEN conjunct2, THEN conjunct2, THEN conjunct2, THEN conjunct1, rule_format,
        of ?cmd ?F] read short
    by (simp add: device_bound_client next_outcome_def advance_out_bound_client
        epOut_bound_client enc)
  have 5: "runCommand ?cmd ?G =
       (Throw ?e, with_effects [TransferOut (Some 2) (ascii ''getvar:all'') (Some ?e)] ?F)"
    using claim [THEN conjunct2, THEN conjunct2, THEN conjunct2, THEN conjunct2, THEN conjunct1,
        rule_format, of ?cmd ?G _ ?e] short
    by (simp add: device_bound_client next_outcome_def advance_out_bound_client
        epOut_bound_client enc)
  have 6: "effects (snd (runCommand ?cmd ?F)) = [TransferOut (Some 2) (ascii ''getvar:all'') None]"
    using claim [THEN conjunct2, THEN conjunct2, THEN conjunct2, THEN conjunct2, THEN conjunct2,
        rule_format, of ?cmd ?F] short
    by (simp add: device_bound_client next_outcome_def epOut_bound_client enc)
       (simp add: bound_client_def)
  from len 1 2 4 5 6 show ?thesis by (intro conjI)
qed

text \<open>
  Claim C10. The guard of \<open>runCommand\<close> counts UTF-16 code units, and the bytes sent are
  the UTF-8 encoding. The command made of 33 times the letter U+00E9 has length 33, is not
  ASCII, and is encoded in 66 bytes; on a bound client whose transfer resolves,
  \<open>runCommand\<close> passes these 66 bytes to the OUT endpoint and goes on to read the
  response: the guard raises no RangeError.
\<close>

theorem runCommand_counts_code_units:
  "length (replicate 33 (233 :: code_unit)) \<le> 64
   \<and> (\<exists>u \<in> set (replicate 33 (233 :: code_unit)). 127 < unat u)
   \<and> TextEncoder_encode (replicate 33 233) = concat (replicate 33 [195, 169])
   \<and> length (TextEncoder_encode (replicate 33 233)) = 66
   \<and> (\<forall>fd d.
        device fd = Some d \<and> next_outcome d = None \<longrightarrow>
        runCommand (replicate 33 233) fd =
          readResponse
            (with_effects [TransferOut (epOut fd) (TextEncoder_encode (replicate 33 233)) None]
               (advance_out 1 fd)) \<and>
        runCommand (replicate 33 233) fd \<noteq> (Throw RangeError, fd))"
proof (intro conjI allI impI)
  let ?cmd = "replicate 33 233 :: jsstring"
  show "length ?cmd \<le> 64" by simp
  show "\<exists>u \<in> set ?cmd. 127 < unat u" by simp
  have sv: "scalar_values ?cmd = map unat ?cmd"
    by (rule scalar_values_no_surrogate)
       (simp add: is_high_surrogate_def is_low_surrogate_def)
  show enc: "TextEncoder_encode ?cmd = concat (replicate 33 [195, 169])"
    by (simp add: TextEncoder_encode_def sv utf8_bytes_def)
  show "length (TextEncoder_encode ?cmd) = 66"
    by (simp add: enc length_concat sum_list_replicate)
  fix fd :: fastboot_device and d :: usb_device
  assume a: "device fd = Some d \<and> next_outcome d = None"
  then show "runCommand ?cmd fd =
          readResponse
            (with_effects [TransferOut (epOut fd) (TextEncoder_encode ?cmd) None]
               (advance_out 1 fd))"
    by (simp add: runCommand_bound)
  have "effects (snd (runCommand ?cmd fd)) \<noteq> effects fd"
    using a by (simp add: runCommand_one_transfer)
  then show "runCommand ?cmd fd \<noteq> (Throw RangeError, fd)" by auto
qed

theorem runCommand_counts_code_units_witness:
  "runCommand (replicate 33 233) (bound_client [Inr (ascii ''OKAYdone'')] []) =
     (Return \<lparr>text' = js ''done'', dataSize = None\<rparr>,
      with_effects [TransferOut (Some 2) (concat (replicate 33 [195, 169])) None]
        (bound_client [] []))
   \<and> runCommand (replicate 33 233) (bound_client [Inr (ascii ''OKAYdone'')] []) \<noteq>
       (Throw RangeError, bound_client [Inr (ascii ''OKAYdone'')] [])"
proof -
  note claim = runCommand_counts_code_units
  let ?F = "bound_client [Inr (ascii ''OKAYdone'')] []"
  let ?packet = "concat (replicate 33 [195, 169]) :: bytes"
  have enc: "TextEncoder_encode (replicate 33 233) = ?packet"
    using claim by blast
  have dev: "device (with_effects [TransferOut (Some 2) ?packet None] ?F) =
      Some \<lparr>configurations = [], openResult = None, resetResult = None,
        selectConfigurationResult = None, claimInterfaceResult = None,
        inQueue = [Inr (ascii ''OKAYdone'')], outFaults = []\<rparr>"
    by (simp add: with_effects_def bound_client_def)
  have read: "readResponse (with_effects [TransferOut (Some 2) ?packet None] ?F) =
      (Return \<lparr>text' = js ''done'', dataSize = None\<rparr>,
       with_effects [TransferOut (Some 2) ?packet None] (bound_client [] []))"
    using readResponse_one_OKAY [OF dev, of "ascii ''OKAYdone''" "[]"]
    by (simp add: respStatus_ascii respMessage_ascii)
       (simp add: with_effects_def bound_client_def consume_def)
  have inst: "runCommand (replicate 33 233) ?F =
          readResponse
            (with_effects [TransferOut (epOut ?F) (TextEncoder_encode (replicate 33 233)) None]
               (advance_out 1 ?F)) \<and>
        runCommand (replicate 33 233) ?F \<noteq> (Throw RangeError, ?F)"
    by (rule claim [THEN conjunct2, THEN conjunct2, THEN conjunct2, THEN conjunct2, rule_format,
          of ?F "\<lparr>configurations = [], openResult = None, resetResult = None,
            selectConfigurationResult = None, claimInterfaceResult = None,
            inQueue = [Inr (ascii ''OKAYdone'')], outFaults = []\<rparr>"])
       (simp add: device_bound_client next_outcome_def)
  from inst read show ?thesis
    by (simp only: enc epOut_bound_client advance_out_bound_client drop.simps simp_thms)
       simp
qed

section \<open>Properties of endpoint discovery\<close>

lemma scanEndpoints_ignores_non_bulk:
  "scanEndpoints eps fd = scanEndpoints (filter (\<lambda>e. transferType e = Bulk) eps) fd"
  by (induction eps arbitrary: fd) simp_all

lemma scanEndpoints_no_duplicate:
  assumes "length (bulk_endpoints DirIn eps) \<le> 1"
    and "epIn fd = None \<or> bulk_endpoints DirIn eps = []"
    and "length (bulk_endpoints DirOut eps) \<le> 1"
    and "epOut fd = None \<or> bulk_endpoints DirOut eps = []"
  shows "scanEndpoints eps fd =
     (Return (),
      fd\<lparr>epIn := (case bulk_endpoints DirIn eps of
                   [] \<Rightarrow> epIn fd | e # _ \<Rightarrow> Some (endpointNumber e)),
         epOut := (case bulk_endpoints DirOut eps of
                   [] \<Rightarrow> epOut fd | e # _ \<Rightarrow> Some (endpointNumber e))\<rparr>)"
  using assms
proof (induction eps arbitrary: fd)
  case Nil
  then show ?case by (simp add: bulk_endpoints_def)
next
  case (Cons e eps)
  show ?case
  proof (cases "transferType e = Bulk")
    case False
    with Cons.prems have "scanEndpoints eps fd =
     (Return (),
      fd\<lparr>epIn := (case bulk_endpoints DirIn eps of
                   [] \<Rightarrow> epIn fd | e # _ \<Rightarrow> Some (endpointNumber e)),
         epOut := (case bulk_endpoints DirOut eps of
                   [] \<Rightarrow> epOut fd | e # _ \<Rightarrow> Some (endpointNumber e))\<rparr>)"
      by (intro Cons.IH) (simp_all add: bulk_endpoints_def)
    with False show ?thesis by (simp add: bulk_endpoints_def)
  next
    case True
    show ?thesis
    proof (cases "direction e")
      case DirIn
      with True Cons.prems have none: "epIn fd = None" "bulk_endpoints DirIn eps = []"
        by (simp_all add: bulk_endpoints_def)
      let ?fd = "fd\<lparr>epIn := Some (endpointNumber e)\<rparr>"
      have "scanEndpoints eps ?fd =
       (Return (),
        ?fd\<lparr>epIn := (case bulk_endpoints DirIn eps of
                     [] \<Rightarrow> epIn ?fd | e # _ \<Rightarrow> Some (endpointNumber e)),
           epOut := (case bulk_endpoints DirOut eps of
                     [] \<Rightarrow> epOut ?fd | e # _ \<Rightarrow> Some (endpointNumber e))\<rparr>)"
        using True DirIn Cons.prems none
        by (intro Cons.IH) (simp_all add: bulk_endpoints_def)
      with True DirIn none show ?thesis by (simp add: bulk_endpoints_def split: list.splits)
    next
      case DirOut
      with True Cons.prems have none: "epOut fd = None" "bulk_endpoints DirOut eps = []"
        by (simp_all add: bulk_endpoints_def)
      let ?fd = "fd\<lparr>epOut := Some (endpointNumber e)\<rparr>"
      have "scanEndpoints eps ?fd =
       (Return (),
        ?fd\<lparr>epIn := (case bulk_endpoints DirIn eps of
                     [] \<Rightarrow> epIn ?fd | e # _ \<Rightarrow> Some (endpointNumber e)),
           epOut := (case bulk_endpoints DirOut eps of
                     [] \<Rightarrow> epOut ?fd | e # _ \<Rightarrow> Some (endpointNumber e))\<rparr>)"
        using True DirOut Cons.prems none
        by (intro Cons.IH) (simp_all add: bulk_endpoints_def)
      with True DirOut none show ?thesis by (simp add: bulk_endpoints_def split: list.splits)
    qed
  qed
qed

lemma scanEndpoints_append:
  "scanEndpoints (pre @ post) fd =
     (case scanEndpoints pre fd of
        (Return _, fd1) \<Rightarrow> scanEndpoints post fd1
      | (Throw e, fd1) \<Rightarrow> (Throw e, fd1)
      | (Pending, fd1) \<Rightarrow> (Pending, fd1))"
  by (induction pre arbitrary: fd) simp_all

lemma scanEndpoints_Return:
  assumes "scanEndpoints eps fd = (Return u, fd')"
  shows "length (bulk_endpoints DirIn eps) \<le> 1 \<and>
         (epIn fd = None \<or> bulk_endpoints DirIn eps = []) \<and>
         length (bulk_endpoints DirOut eps) \<le> 1 \<and>
         (epOut fd = None \<or> bulk_endpoints DirOut eps = [])"
  using assms
proof (induction eps arbitrary: fd)
  case Nil
  then show ?case by (simp add: bulk_endpoints_def)
next
  case (Cons e eps)
  show ?case
  proof (cases "transferType e = Bulk")
    case False
    with Cons.prems have "scanEndpoints eps fd = (Return u, fd')" by simp
    from Cons.IH [OF this] False show ?thesis by (simp add: bulk_endpoints_def)
  next
    case True
    show ?thesis
    proof (cases "direction e")
      case DirIn
      with True Cons.prems have none: "epIn fd = None"
        and rec: "scanEndpoints eps (fd\<lparr>epIn := Some (endpointNumber e)\<rparr>) = (Return u, fd')"
        by (simp_all split: if_splits)
      from Cons.IH [OF rec] True DirIn none show ?thesis by (simp add: bulk_endpoints_def)
    next
      case DirOut
      with True Cons.prems have none: "epOut fd = None"
        and rec: "scanEndpoints eps (fd\<lparr>epOut := Some (endpointNumber e)\<rparr>) = (Return u, fd')"
        by (simp_all split: if_splits)
      from Cons.IH [OF rec] True DirOut none show ?thesis by (simp add: bulk_endpoints_def)
    qed
  qed
qed

lemma validateAndConnectDevice_scan:
  assumes "device fd = Some d" and "first_alternate d = Some ife"
  shows "validateAndConnectDevice rethrow fd =
     (case scanEndpoints (endpoints ife) (fd\<lparr>epIn := None, epOut := None\<rparr>) of
        (Return _, fd1) \<Rightarrow>
          if epIn fd1 = None \<or> epOut fd1 = None then
            (Throw (UsbError ''Could not find the required IN and OUT endpoints''), fd1)
          else
            (case openAndClaim d of
               None \<Rightarrow> (Return (), fd1)
             | Some e \<Rightarrow> if rethrow then (Throw e, fd1) else (Return (), fd1))
      | (Throw e, fd1) \<Rightarrow> (Throw e, fd1)
      | (Pending, fd1) \<Rightarrow> (Pending, fd1))"
  using assms by (simp add: validateAndConnectDevice_def Let_def)

lemma scan_fresh:
  assumes "length (bulk_endpoints DirIn eps) \<le> 1" and "length (bulk_endpoints DirOut eps) \<le> 1"
  shows "scanEndpoints eps (fd\<lparr>epIn := None, epOut := None\<rparr>) =
     (Return (),
      fd\<lparr>epIn := (case bulk_endpoints DirIn eps of
                   [] \<Rightarrow> None | e # _ \<Rightarrow> Some (endpointNumber e)),
         epOut := (case bulk_endpoints DirOut eps of
                   [] \<Rightarrow> None | e # _ \<Rightarrow> Some (endpointNumber e))\<rparr>)"
  using scanEndpoints_no_duplicate [of eps "fd\<lparr>epIn := None, epOut := None\<rparr>"] assms
  by (simp split: list.splits)

lemma discovery_not_found:
  assumes "device fd = Some d" and "first_alternate d = Some ife"
    and "length (bulk_endpoints DirIn (endpoints ife)) \<le> 1"
    and "length (bulk_endpoints DirOut (endpoints ife)) \<le> 1"
    and "bulk_endpoints DirIn (endpoints ife) = [] \<or> bulk_endpoints DirOut (endpoints ife) = []"
  shows "fst (validateAndConnectDevice rethrow fd) =
         Throw (UsbError ''Could not find the required IN and OUT endpoints'')"
  using assms(5)
  by (auto simp: validateAndConnectDevice_scan [OF assms(1,2)] scan_fresh [OF assms(3,4)])

lemma discovery_multiple_IN:
  assumes "device fd = Some d" and "first_alternate d = Some ife"
    and "endpoints ife = pre @ e # post"
    and "transferType e = Bulk" and "direction e = DirIn"
    and "length (bulk_endpoints DirIn pre) = 1" and "length (bulk_endpoints DirOut pre) \<le> 1"
  shows "fst (validateAndConnectDevice rethrow fd) =
         Throw (UsbError ''Interface has multiple IN endpoints'')"
proof -
  from assms(6) obtain i where i: "bulk_endpoints DirIn pre = [i]"
    by (cases "bulk_endpoints DirIn pre") simp_all
  have "length (bulk_endpoints DirIn pre) \<le> 1" using assms(6) by simp
  note pre = scan_fresh [OF this assms(7), of fd]
  show ?thesis
    using assms(4,5)
    by (simp add: validateAndConnectDevice_scan [OF assms(1,2)] assms(3) scanEndpoints_append
        pre i)
qed

lemma discovery_multiple_OUT:
  assumes "device fd = Some d" and "first_alternate d = Some ife"
    and "endpoints ife = pre @ e # post"
    and "transferType e = Bulk" and "direction e = DirOut"
    and "length (bulk_endpoints DirOut pre) = 1" and "length (bulk_endpoints DirIn pre) \<le> 1"
  shows "fst (validateAndConnectDevice rethrow fd) =
         Throw (UsbError ''Interface has multiple OUT endpoints'')"
proof -
  from assms(6) obtain u where u: "bulk_endpoints DirOut pre = [u]"
    by (cases "bulk_endpoints DirOut pre") simp_all
  have "length (bulk_endpoints DirOut pre) \<le> 1" using assms(6) by simp
  note pre = scan_fresh [OF assms(7) this, of fd]
  show ?thesis
    using assms(4,5)
    by (simp add: validateAndConnectDevice_scan [OF assms(1,2)] assms(3) scanEndpoints_append
        pre u)
qed

lemma discovery_success:
  assumes "device fd = Some d" and "first_alternate d = Some ife"
    and "bulk_endpoints DirIn (endpoints ife) = [i]"
    and "bulk_endpoints DirOut (endpoints ife) = [u]"
  shows "validateAndConnectDevice rethrow fd =
     ((case openAndClaim d of
         None \<Rightarrow> Return ()
       | Some e \<Rightarrow> if rethrow then Throw e else Return ()),
      fd\<lparr>epIn := Some (endpointNumber i), epOut := Some (endpointNumber u)\<rparr>)"
proof -
  have "length (bulk_endpoints DirIn (endpoints ife)) \<le> 1"
    and "length (bulk_endpoints DirOut (endpoints ife)) \<le> 1"
    using assms(3,4) by simp_all
  note scan = scan_fresh [OF this, of fd]
  show ?thesis
    by (simp add: validateAndConnectDevice_scan [OF assms(1,2)] scan assms(3,4)
        split: option.splits)
qed

lemma discovery_Return_only:
  assumes "device fd = Some d" and "first_alternate d = Some ife"
    and "validateAndConnectDevice rethrow fd = (Return (), fd')"
  shows "\<exists>i u. bulk_endpoints DirIn (endpoints ife) = [i] \<and>
           bulk_endpoints DirOut (endpoints ife) = [u] \<and>
           fd' = fd\<lparr>epIn := Some (endpointNumber i), epOut := Some (endpointNumber u)\<rparr>"
proof -
  let ?fd0 = "fd\<lparr>epIn := None, epOut := None\<rparr>"
  obtain c fd1 where scan: "scanEndpoints (endpoints ife) ?fd0 = (c, fd1)"
    by (cases "scanEndpoints (endpoints ife) ?fd0")
  from assms(3) have c: "c = Return ()"
    by (cases c)
       (simp_all add: validateAndConnectDevice_scan [OF assms(1,2)] scan split: if_splits)
  from scanEndpoints_Return [OF scan [unfolded c]]
  have len: "length (bulk_endpoints DirIn (endpoints ife)) \<le> 1"
    "length (bulk_endpoints DirOut (endpoints ife)) \<le> 1" by simp_all
  note fresh = scan_fresh [OF len, of fd]
  from assms(3) have found: "bulk_endpoints DirIn (endpoints ife) \<noteq> []"
    "bulk_endpoints DirOut (endpoints ife) \<noteq> []"
    by (auto simp: validateAndConnectDevice_scan [OF assms(1,2)] fresh split: if_splits)
  from len found obtain i u where iu: "bulk_endpoints DirIn (endpoints ife) = [i]"
    "bulk_endpoints DirOut (endpoints ife) = [u]"
    by (cases "bulk_endpoints DirIn (endpoints ife)"; cases "bulk_endpoints DirOut (endpoints ife)")
       simp_all
  from assms(3) have "fd' = fd\<lparr>epIn := Some (endpointNumber i), epOut := Some (endpointNumber u)\<rparr>"
    by (simp add: discovery_success [OF assms(1,2) iu])
  with iu show ?thesis by blast
qed

text \<open>
  Claim C7, amended. Discovery scans the endpoints of the first alternate in order and
  ignores those that are not bulk. It fails with the UsbError of multiple IN endpoints as
  soon as a second bulk IN endpoint is seen, and with that of multiple OUT endpoints as
  soon as a second bulk OUT endpoint is seen, whichever the scan meets first. When no
  direction has a second bulk endpoint, it fails with the UsbError of endpoints not found
  if there is no bulk IN or no bulk OUT endpoint. Discovery passes only when there is
  exactly one bulk IN and one bulk OUT endpoint, and then the client holds their numbers.
\<close>

theorem endpoint_discovery:
  "\<forall>rethrow fd d ife.
     device fd = Some d \<and> first_alternate d = Some ife \<longrightarrow>
     (length (bulk_endpoints DirIn (endpoints ife)) \<le> 1 \<and>
      length (bulk_endpoints DirOut (endpoints ife)) \<le> 1 \<and>
      (bulk_endpoints DirIn (endpoints ife) = [] \<or> bulk_endpoints DirOut (endpoints ife) = [])
      \<longrightarrow> fst (validateAndConnectDevice rethrow fd) =
            Throw (UsbError ''Could not find the required IN and OUT endpoints''))
     \<and> (\<forall>pre e post.
          endpoints ife = pre @ e # post \<and> transferType e = Bulk \<and> direction e = DirIn \<and>
          length (bulk_endpoints DirIn pre) = 1 \<and> length (bulk_endpoints DirOut pre) \<le> 1
          \<longrightarrow> fst (validateAndConnectDevice rethrow fd) =
                Throw (UsbError ''Interface has multiple IN endpoints''))
     \<and> (\<forall>pre e post.
          endpoints ife = pre @ e # post \<and> transferType e = Bulk \<and> direction e = DirOut \<and>
          length (bulk_endpoints DirOut pre) = 1 \<and> length (bulk_endpoints DirIn pre) \<le> 1
          \<longrightarrow> fst (validateAndConnectDevice rethrow fd) =
                Throw (UsbError ''Interface has multiple OUT endpoints''))
     \<and> (\<forall>i u.
          bulk_endpoints DirIn (endpoints ife) = [i] \<and>
          bulk_endpoints DirOut (endpoints ife) = [u]
          \<longrightarrow> validateAndConnectDevice rethrow fd =
                ((case openAndClaim d of
                    None \<Rightarrow> Return ()
                  | Some e \<Rightarrow> if rethrow then Throw e else Return ()),
                 fd\<lparr>epIn := Some (endpointNumber i), epOut := Some (endpointNumber u)\<rparr>))
     \<and> (\<forall>fd'.
          validateAndConnectDevice rethrow fd = (Return (), fd')
          \<longrightarrow> (\<exists>i u. bulk_endpoints DirIn (endpoints ife) = [i] \<and>
                     bulk_endpoints DirOut (endpoints ife) = [u] \<and>
                     fd' = fd\<lparr>epIn := Some (endpointNumber i),
                              epOut := Some (endpointNumber u)\<rparr>))
     \<and> scanEndpoints (endpoints ife) fd =
         scanEndpoints (filter (\<lambda>e. transferType e = Bulk) (endpoints ife)) fd"
proof (intro allI impI, elim conjE, intro conjI allI impI)
  fix rethrow :: bool and fd :: fastboot_device and d :: usb_device and ife :: usb_alternate
  assume dev: "device fd = Some d" and alt: "first_alternate d = Some ife"
  {
    assume "length (bulk_endpoints DirIn (endpoints ife)) \<le> 1 \<and>
      length (bulk_endpoints DirOut (endpoints ife)) \<le> 1 \<and>
      (bulk_endpoints DirIn (endpoints ife) = [] \<or> bulk_endpoints DirOut (endpoints ife) = [])"
    then show "fst (validateAndConnectDevice rethrow fd) =
            Throw (UsbError ''Could not find the required IN and OUT endpoints'')"
      using discovery_not_found [OF dev alt] by blast
  next
    fix pre e post
    assume "endpoints ife = pre @ e # post \<and> transferType e = Bulk \<and> direction e = DirIn \<and>
          length (bulk_endpoints DirIn pre) = 1 \<and> length (bulk_endpoints DirOut pre) \<le> 1"
    then show "fst (validateAndConnectDevice rethrow fd) =
                Throw (UsbError ''Interface has multiple IN endpoints'')"
      using discovery_multiple_IN [OF dev alt] by blast
  next
    fix pre e post
    assume "endpoints ife = pre @ e # post \<and> transferType e = Bulk \<and> direction e = DirOut \<and>
          length (bulk_endpoints DirOut pre) = 1 \<and> length (bulk_endpoints DirIn pre) \<le> 1"
    then show "fst (validateAndConnectDevice rethrow fd) =
                Throw (UsbError ''Interface has multiple OUT endpoints'')"
      using discovery_multiple_OUT [OF dev alt] by blast
  next
    fix i u
    assume "bulk_endpoints DirIn (endpoints ife) = [i] \<and>
          bulk_endpoints DirOut (endpoints ife) = [u]"
    then show "validateAndConnectDevice rethrow fd =
                ((case openAndClaim d of
                    None \<Rightarrow> Return ()
                  | Some e \<Rightarrow> if rethrow then Throw e else Return ()),
                 fd\<lparr>epIn := Some (endpointNumber i), epOut := Some (endpointNumber u)\<rparr>)"
      using discovery_success [OF dev alt] by blast
  next
    fix fd'
    assume "validateAndConnectDevice rethrow fd = (Return (), fd')"
    then show "\<exists>i u. bulk_endpoints DirIn (endpoints ife) = [i] \<and>
                     bulk_endpoints DirOut (endpoints ife) = [u] \<and>
                     fd' = fd\<lparr>epIn := Some (endpointNumber i),
                              epOut := Some (endpointNumber u)\<rparr>"
      by (rule discovery_Return_only [OF dev alt])
  next
    show "scanEndpoints (endpoints ife) fd =
         scanEndpoints (filter (\<lambda>e. transferType e = Bulk) (endpoints ife)) fd"
      by (rule scanEndpoints_ignores_non_bulk)
  }
qed

text \<open>
  Claim C7 as it was stated fails on a descriptor with two bulk OUT endpoints and no bulk
  IN endpoint: no bulk IN endpoint is present, yet the error is that of multiple OUT
  endpoints, not that of endpoints not found.
\<close>

theorem endpoint_discovery_counterexample:
  "bulk_endpoints DirIn
     [\<lparr>endpointNumber = 1, direction = DirOut, transferType = Bulk\<rparr>,
      \<lparr>endpointNumber = 2, direction = DirOut, transferType = Bulk\<rparr>] = []
   \<and> fst (validateAndConnectDevice True (selected_client
       [\<lparr>endpointNumber = 1, direction = DirOut, transferType = Bulk\<rparr>,
        \<lparr>endpointNumber = 2, direction = DirOut, transferType = Bulk\<rparr>])) =
     Throw (UsbError ''Interface has multiple OUT endpoints'')
   \<and> fst (validateAndConnectDevice True (selected_client
       [\<lparr>endpointNumber = 1, direction = DirOut, transferType = Bulk\<rparr>,
        \<lparr>endpointNumber = 2, direction = DirOut, transferType = Bulk\<rparr>])) \<noteq>
     Throw (UsbError ''Could not find the required IN and OUT endpoints'')"
  by (simp add: bulk_endpoints_def validateAndConnectDevice_def selected_client_def
      selected_device_def constructor_def first_alternate_def Let_def)

lemma first_alternate_selected: "first_alternate (selected_device eps) = Some \<lparr>endpoints = eps\<rparr>"
  by (simp add: first_alternate_def selected_device_def)

lemma device_selected: "device (selected_client eps) = Some (selected_device eps)"
  by (simp add: selected_client_def)

lemma openAndClaim_selected: "openAndClaim (selected_device eps) = None"
  by (simp add: openAndClaim_def selected_device_def)

theorem endpoint_discovery_witness:
  "fst (validateAndConnectDevice True (selected_client
      [\<lparr>endpointNumber = 3, direction = DirIn, transferType = Interrupt\<rparr>,
       \<lparr>endpointNumber = 2, direction = DirOut, transferType = Bulk\<rparr>])) =
     Throw (UsbError ''Could not find the required IN and OUT endpoints'')
   \<and> fst (validateAndConnectDevice True (selected_client
      [\<lparr>endpointNumber = 1, direction = DirIn, transferType = Bulk\<rparr>,
       \<lparr>endpointNumber = 2, direction = DirOut, transferType = Bulk\<rparr>,
       \<lparr>endpointNumber = 3, direction = DirIn, transferType = Bulk\<rparr>])) =
     Throw (UsbError ''Interface has multiple IN endpoints'')
   \<and> fst (validateAndConnectDevice True (selected_client
      [\<lparr>endpointNumber = 1, direction = DirOut, transferType = Bulk\<rparr>,
       \<lparr>endpointNumber = 2, direction = DirOut, transferType = Bulk\<rparr>])) =
     Throw (UsbError ''Interface has multiple OUT endpoints'')
   \<and> validateAndConnectDevice True (selected_client
      [\<lparr>endpointNumber = 3, direction = DirIn, transferType = Interrupt\<rparr>,
       \<lparr>endpointNumber = 1, direction = DirIn, transferType = Bulk\<rparr>,
       \<lparr>endpointNumber = 2, direction = DirOut, transferType = Bulk\<rparr>]) =
     (Return (),
      (selected_client
        [\<lparr>endpointNumber = 3, direction = DirIn, transferType = Interrupt\<rparr>,
         \<lparr>endpointNumber = 1, direction = DirIn, transferType = Bulk\<rparr>,
         \<lparr>endpointNumber = 2, direction = DirOut, transferType = Bulk\<rparr>])
        \<lparr>epIn := Some 1, epOut := Some 2\<rparr>)
   \<and> (\<exists>i u.
        bulk_endpoints DirIn
          [\<lparr>endpointNumber = 3, direction = DirIn, transferType = Interrupt\<rparr>,
           \<lparr>endpointNumber = 1, direction = DirIn, transferType = Bulk\<rparr>,
           \<lparr>endpointNumber = 2, direction = DirOut, transferType = Bulk\<rparr>] = [i] \<and>
        bulk_endpoints DirOut
          [\<lparr>endpointNumber = 3, direction = DirIn, transferType = Interrupt\<rparr>,
           \<lparr>endpointNumber = 1, direction = DirIn, transferType = Bulk\<rparr>,
           \<lparr>endpointNumber = 2, direction = DirOut, transferType = Bulk\<rparr>] = [u] \<and>
        endpointNumber i = 1 \<and> endpointNumber u = 2)"
proof -
  note claim = endpoint_discovery
  let ?int3 = "\<lparr>endpointNumber = 3, direction = DirIn, transferType = Interrupt\<rparr>"
  let ?in1 = "\<lparr>endpointNumber = 1, direction = DirIn, transferType = Bulk\<rparr>"
  let ?in3 = "\<lparr>endpointNumber = 3, direction = DirIn, transferType = Bulk\<rparr>"
  let ?out1 = "\<lparr>endpointNumber = 1, direction = DirOut, transferType = Bulk\<rparr>"
  let ?out2 = "\<lparr>endpointNumber = 2, direction = DirOut, transferType = Bulk\<rparr>"
  have 1: "fst (validateAndConnectDevice True (selected_client [?int3, ?out2])) =
     Throw (UsbError ''Could not find the required IN and OUT endpoints'')"
    using claim [rule_format, THEN conjunct1, rule_format,
        of "selected_client [?int3, ?out2]" "selected_device [?int3, ?out2]"
           "\<lparr>endpoints = [?int3, ?out2]\<rparr>" True]
    by (simp add: device_selected first_alternate_selected bulk_endpoints_def)
  have 2: "fst (validateAndConnectDevice True (selected_client [?in1, ?out2, ?in3])) =
     Throw (UsbError ''Interface has multiple IN endpoints'')"
    using claim [rule_format, THEN conjunct2, THEN conjunct1, rule_format,
        of "selected_client [?in1, ?out2, ?in3]" "selected_device [?in1, ?out2, ?in3]"
           "\<lparr>endpoints = [?in1, ?out2, ?in3]\<rparr>" "[?in1, ?out2]" ?in3 "[]" True]
    by (simp add: device_selected first_alternate_selected bulk_endpoints_def)
  have 3: "fst (validateAndConnectDevice True (selected_client [?out1, ?out2])) =
     Throw (UsbError ''Interface has multiple OUT endpoints'')"
    using claim [rule_format, THEN conjunct2, THEN conjunct2, THEN conjunct1, rule_format,
        of "selected_client [?out1, ?out2]" "selected_device [?out1, ?out2]"
           "\<lparr>endpoints = [?out1, ?out2]\<rparr>" "[?out1]" ?out2 "[]" True]
    by (simp add: device_selected first_alternate_selected bulk_endpoints_def)
  have 4: "validateAndConnectDevice True (selected_client [?int3, ?in1, ?out2]) =
     (Return (), (selected_client [?int3, ?in1, ?out2])\<lparr>epIn := Some 1, epOut := Some 2\<rparr>)"
    using claim [rule_format, THEN conjunct2, THEN conjunct2, THEN conjunct2, THEN conjunct1,
        rule_format,
        of "selected_client [?int3, ?in1, ?out2]" "selected_device [?int3, ?in1, ?out2]"
           "\<lparr>endpoints = [?int3, ?in1, ?out2]\<rparr>" ?in1 ?out2 True]
    by (simp add: device_selected first_alternate_selected bulk_endpoints_def
        openAndClaim_selected)
  have 5: "\<exists>i u. bulk_endpoints DirIn [?int3, ?in1, ?out2] = [i] \<and>
        bulk_endpoints DirOut [?int3, ?in1, ?out2] = [u] \<and>
        endpointNumber i = 1 \<and> endpointNumber u = 2"
    using claim [rule_format, THEN conjunct2, THEN conjunct2, THEN conjunct2, THEN conjunct2,
        THEN conjunct1, rule_format,
        of "selected_client [?int3, ?in1, ?out2]" "selected_device [?int3, ?in1, ?out2]"
           "\<lparr>endpoints = [?int3, ?in1, ?out2]\<rparr>" True
           "(selected_client [?int3, ?in1, ?out2])\<lparr>epIn := Some 1, epOut := Some 2\<rparr>"] 4
    by (simp add: device_selected first_alternate_selected) (simp add: bulk_endpoints_def)
  from 1 2 3 4 5 show ?thesis by (intro conjI)
qed

section \<open>Properties of the download negotiation\<close>

declare toString16.simps [simp del]

declare toString10.simps [simp del]

lemma hex_fixed_0: "hex_fixed k 0 = replicate k (of_char CHR ''0'')"
  by (induction k) (simp_all add: hex_digit_def replicate_append_same)

lemma length_hex_fixed: "length (hex_fixed k n) = k"
  by (induction k arbitrary: n) simp_all

lemma toString16_nonempty: "0 < length (toString16 n)"
  by (subst toString16.simps) simp

lemma padStart_toString16:
  "n < 16 ^ Suc k \<Longrightarrow> padStart (toString16 n) (Suc k) (of_char CHR ''0'') = hex_fixed (Suc k) n"
proof (induction k arbitrary: n)
  case 0
  then show ?case by (subst toString16.simps) (simp add: padStart_def)
next
  case (Suc k)
  show ?case
  proof (cases "n < 16")
    case True
    then show ?thesis
      by (subst toString16.simps)
         (simp add: padStart_def hex_fixed_0 replicate_append_same)
  next
    case False
    from Suc.prems have "n div 16 < 16 ^ Suc k" by (simp add: less_mult_imp_div_less)
    from Suc.IH [OF this]
    have ih: "replicate (Suc k - length (toString16 (n div 16))) (of_char CHR ''0'')
              @ toString16 (n div 16) = hex_fixed (Suc k) (n div 16)"
      by (simp add: padStart_def)
    have "padStart (toString16 n) (Suc (Suc k)) (of_char CHR ''0'') =
          (replicate (Suc k - length (toString16 (n div 16))) (of_char CHR ''0'')
           @ toString16 (n div 16)) @ [hex_digit (n mod 16)]"
      using False by (subst toString16.simps) (simp add: padStart_def)
    also have "\<dots> = hex_fixed (Suc (Suc k)) n"
      by (simp only: ih hex_fixed.simps)
    finally show ?thesis .
  qed
qed

lemma hex_fixed_8: "hex_fixed 8 n = hex8 n"
proof -
  have e: "(8 :: nat) = Suc (Suc (Suc (Suc (Suc (Suc (Suc (Suc 0)))))))" by simp
  have d: "m div 16 ^ Suc k = m div 16 ^ k div 16" for m k :: nat
  proof -
    have "m div 16 ^ Suc k = m div (16 ^ k * 16)" by (simp only: power_Suc mult.commute)
    also have "\<dots> = m div 16 ^ k div 16" by (rule div_mult2_eq)
    finally show ?thesis .
  qed
  have p: "(7 :: nat) = Suc 6" "(6 :: nat) = Suc 5" "(5 :: nat) = Suc 4" "(4 :: nat) = Suc 3"
    "(3 :: nat) = Suc 2" "(2 :: nat) = Suc 1"
    by simp_all
  have "hex8 n = map hex_digit
     [n div 16 div 16 div 16 div 16 div 16 div 16 div 16 mod 16,
      n div 16 div 16 div 16 div 16 div 16 div 16 mod 16,
      n div 16 div 16 div 16 div 16 div 16 mod 16,
      n div 16 div 16 div 16 div 16 mod 16,
      n div 16 div 16 div 16 mod 16, n div 16 div 16 mod 16, n div 16 mod 16, n mod 16]"
    unfolding hex8_def p d by (simp only: power_one_right)
  then show ?thesis
    unfolding e by (simp only: hex_fixed.simps list.map append.simps)
qed

lemma xferHex_hex8:
  assumes "n < 2 ^ 32"
  shows "padStart (toString16 n) 8 (of_char CHR ''0'') = hex8 n"
proof -
  have "n < 16 ^ Suc 7" using assms by simp
  from padStart_toString16 [OF this] show ?thesis by (simp add: hex_fixed_8)
qed

lemma toString16_long: "16 ^ k \<le> n \<Longrightarrow> k < length (toString16 n)"
proof (induction k arbitrary: n)
  case 0
  show ?case using toString16_nonempty [of n] by simp
next
  case (Suc k)
  have "(16 :: nat) \<le> 16 ^ Suc k" by simp
  with Suc.prems have big: "\<not> n < 16" by linarith
  from Suc.prems have "16 ^ k * 16 \<le> n" by (simp add: mult.commute)
  then have "16 ^ k \<le> n div 16" by (simp only: less_eq_div_iff_mult_less_eq zero_less_numeral)
  from Suc.IH [OF this] have "k < length (toString16 (n div 16))" .
  then show ?case using big by (subst toString16.simps) simp
qed

lemma hex_digit_ascii:
  assumes "d < 16"
  shows "unat (hex_digit d) < 128"
proof -
  have small: "unat (of_nat m :: code_unit) = m" if "m < 128" for m
    using that by (simp add: unat_of_nat)
  show ?thesis
  proof (cases "d < 10")
    case True
    then have "unat (of_nat (48 + d) :: code_unit) = 48 + d" by (intro small) simp
    with True show ?thesis by (simp only: hex_digit_def if_True)
  next
    case False
    with assms have "unat (of_nat (87 + d) :: code_unit) = 87 + d" by (intro small) simp
    with False assms show ?thesis by (simp only: hex_digit_def if_False)
  qed
qed

lemma download_command_ascii: "\<forall>u \<in> set (download_command n). unat u < 128"
proof -
  have "\<forall>u \<in> set (js ''download:''). unat u < 128"
    by (simp add: js_def unat_unit_of_char)
  moreover have "\<forall>u \<in> set (hex8 n). unat u < 128"
    by (simp add: hex8_def hex_digit_ascii)
  ultimately show ?thesis by (auto simp: download_command_def)
qed

lemma length_hex8: "length (hex8 n) = 8"
  by (simp add: hex8_def)

lemma length_download_command: "length (download_command n) = 17"
  by (simp add: download_command_def length_hex8 js_def)

lemma and_then_Some:
  "and_then (Some (c, fd)) k =
     (case c of Return x \<Rightarrow> k x fd | Throw e \<Rightarrow> Some (Throw e, fd) | Pending \<Rightarrow> Some (Pending, fd))"
  by (cases c) (simp_all add: and_then_def)

lemma unlockBootloader_download_small:
  assumes "length buffer < 2 ^ 32"
  shows "unlockBootloader_download buffer fd =
     and_then (Some (runCommand (download_command (length buffer)) fd))
       (\<lambda>downloadResp fd1.
          case dataSize downloadResp of
            None \<Rightarrow>
              Some (Throw (FastbootError (js ''FAIL'')
                      (js ''Unexpected response to download command: '' @ text' downloadResp)),
                    fd1)
          | Some hex \<Rightarrow>
              if parseInt16 hex \<noteq> Some (int (length buffer)) then
                Some (Throw (FastbootError (js ''FAIL'')
                        (js ''Bootloader wants '' @ toString10 (length buffer)
                         @ js '' bytes, requested to send undefined bytes'')),
                      fd1)
              else
                and_then (sendRawPayload buffer fd1)
                  (\<lambda>_ fd2.
                     and_then (Some (readResponse fd2))
                       (\<lambda>_ fd3.
                          and_then (Some (runCommand (js ''flashing unlock_bootloader'') fd3))
                            (\<lambda>_ fd4. Some (Return (), fd4)))))"
  unfolding unlockBootloader_download_def Let_def xferHex_hex8 [OF assms]
  by (simp add: length_hex8 download_command_def)

lemma unlockBootloader_download_overflow:
  assumes "2 ^ 32 \<le> length buffer"
  shows "unlockBootloader_download buffer fd =
     Some (Throw (FastbootError (js ''FAIL'')
             (js ''Transfer size overflow: '' @ toString16 (length buffer)
              @ js '' is more than 8 digits'')),
           fd)"
proof -
  have "8 < length (toString16 (length buffer))"
  proof -
    have "(16 :: nat) ^ 8 \<le> length buffer" using assms by simp
    then show ?thesis by (rule toString16_long)
  qed
  then have pad: "padStart (toString16 (length buffer)) 8 (of_char CHR ''0'') =
      toString16 (length buffer)"
    by (simp add: padStart_def)
  with \<open>8 < length (toString16 (length buffer))\<close> show ?thesis
    by (simp add: unlockBootloader_download_def Let_def)
qed

text \<open>
  Claim C8. For a payload of \<open>n\<close> bytes, \<open>n\<close> below \<open>2 ^ 32\<close>, the hex string the client
  builds is the zero-padded 8-hex-digit value of \<open>n\<close>, and the first thing it does is
  \<open>runCommand\<close> of \<open>download:\<close> followed by that string: one transfer of these 17 ASCII
  bytes to the OUT endpoint. When that command fails the failure is the outcome. When its
  response has no \<open>dataSize\<close>, or a \<open>dataSize\<close> that \<open>parseInt\<close> does not read as \<open>n\<close>,
  the client throws a \<open>FastbootError\<close> with status FAIL and is left as the command left
  it: \<open>sendRawPayload\<close> was not called. Only when the sizes agree does it go on to
  \<open>sendRawPayload\<close>. A payload of \<open>2 ^ 32\<close> bytes or more is refused before anything is
  sent.
\<close>

theorem download_negotiation:
  "(\<forall>buffer fd d.
      device fd = Some d \<and> length buffer < 2 ^ 32 \<longrightarrow>
      padStart (toString16 (length buffer)) 8 (of_char CHR ''0'') = hex8 (length buffer) \<and>
      length (TextEncoder_encode (download_command (length buffer))) = 17 \<and>
      effects (snd (runCommand (download_command (length buffer)) fd)) =
        effects fd @ [TransferOut (epOut fd)
          (TextEncoder_encode (download_command (length buffer))) (next_outcome d)] \<and>
      (\<forall>e fd1.
         runCommand (download_command (length buffer)) fd = (Throw e, fd1) \<longrightarrow>
         unlockBootloader_download buffer fd = Some (Throw e, fd1)) \<and>
      (\<forall>fd1.
         runCommand (download_command (length buffer)) fd = (Pending, fd1) \<longrightarrow>
         unlockBootloader_download buffer fd = Some (Pending, fd1)) \<and>
      (\<forall>r fd1.
         runCommand (download_command (length buffer)) fd = (Return r, fd1) \<and>
         dataSize r = None \<longrightarrow>
         unlockBootloader_download buffer fd =
           Some (Throw (FastbootError (js ''FAIL'')
                   (js ''Unexpected response to download command: '' @ text' r)),
                 fd1)) \<and>
      (\<forall>r fd1 hex.
         runCommand (download_command (length buffer)) fd = (Return r, fd1) \<and>
         dataSize r = Some hex \<and> parseInt16 hex \<noteq> Some (int (length buffer)) \<longrightarrow>
         unlockBootloader_download buffer fd =
           Some (Throw (FastbootError (js ''FAIL'')
                   (js ''Bootloader wants '' @ toString10 (length buffer)
                    @ js '' bytes, requested to send undefined bytes'')),
                 fd1)) \<and>
      (\<forall>r fd1 hex.
         runCommand (download_command (length buffer)) fd = (Return r, fd1) \<and>
         dataSize r = Some hex \<and> parseInt16 hex = Some (int (length buffer)) \<longrightarrow>
         unlockBootloader_download buffer fd =
           and_then (sendRawPayload buffer fd1)
             (\<lambda>_ fd2.
                and_then (Some (readResponse fd2))
                  (\<lambda>_ fd3.
                     and_then (Some (runCommand (js ''flashing unlock_bootloader'') fd3))
                       (\<lambda>_ fd4. Some (Return (), fd4))))))
   \<and> (\<forall>buffer fd.
      2 ^ 32 \<le> length buffer \<longrightarrow>
      unlockBootloader_download buffer fd =
        Some (Throw (FastbootError (js ''FAIL'')
                (js ''Transfer size overflow: '' @ toString16 (length buffer)
                 @ js '' is more than 8 digits'')),
              fd))"
proof (intro conjI allI impI)
  fix buffer :: bytes and fd :: fastboot_device
  assume "2 ^ 32 \<le> length buffer"
  then show "unlockBootloader_download buffer fd =
        Some (Throw (FastbootError (js ''FAIL'')
                (js ''Transfer size overflow: '' @ toString16 (length buffer)
                 @ js '' is more than 8 digits'')),
              fd)"
    by (rule unlockBootloader_download_overflow)
next
  fix buffer :: bytes and fd :: fastboot_device and d :: usb_device
  assume a: "device fd = Some d \<and> length buffer < 2 ^ 32"
  then have small: "length buffer < 2 ^ 32" and dev: "device fd = Some d" by simp_all
  let ?cmd = "download_command (length buffer)"
  note unfold = unlockBootloader_download_small [OF small, of fd]
  show "padStart (toString16 (length buffer)) 8 (of_char CHR ''0'') = hex8 (length buffer)"
    using small by (rule xferHex_hex8)
  show "length (TextEncoder_encode ?cmd) = 17"
    by (simp add: TextEncoder_encode_ascii [OF download_command_ascii]
        length_download_command)
  show "effects (snd (runCommand ?cmd fd)) =
        effects fd @ [TransferOut (epOut fd) (TextEncoder_encode ?cmd) (next_outcome d)]"
    using dev by (intro runCommand_one_transfer) (simp_all add: length_download_command)
  {
    fix e fd1
    assume "runCommand ?cmd fd = (Throw e, fd1)"
    then show "unlockBootloader_download buffer fd = Some (Throw e, fd1)"
      by (simp add: unfold and_then_Some)
  next
    fix fd1
    assume "runCommand ?cmd fd = (Pending, fd1)"
    then show "unlockBootloader_download buffer fd = Some (Pending, fd1)"
      by (simp add: unfold and_then_Some)
  next
    fix r fd1
    assume "runCommand ?cmd fd = (Return r, fd1) \<and> dataSize r = None"
    then show "unlockBootloader_download buffer fd =
           Some (Throw (FastbootError (js ''FAIL'')
                   (js ''Unexpected response to download command: '' @ text' r)),
                 fd1)"
      by (simp add: unfold and_then_Some)
  next
    fix r fd1 hex
    assume "runCommand ?cmd fd = (Return r, fd1) \<and>
         dataSize r = Some hex \<and> parseInt16 hex \<noteq> Some (int (length buffer))"
    then show "unlockBootloader_download buffer fd =
           Some (Throw (FastbootError (js ''FAIL'')
                   (js ''Bootloader wants '' @ toString10 (length buffer)
                    @ js '' bytes, requested to send undefined bytes'')),
                 fd1)"
      by (simp add: unfold and_then_Some)
  next
    fix r fd1 hex
    assume "runCommand ?cmd fd = (Return r, fd1) \<and>
         dataSize r = Some hex \<and> parseInt16 hex = Some (int (length buffer))"
    then show "unlockBootloader_download buffer fd =
           and_then (sendRawPayload buffer fd1)
             (\<lambda>_ fd2.
                and_then (Some (readResponse fd2))
                  (\<lambda>_ fd3.
                     and_then (Some (runCommand (js ''flashing unlock_bootloader'') fd3))
                       (\<lambda>_ fd4. Some (Return (), fd4))))"
      by (simp add: unfold and_then_Some)
  }
qed

lemma consume_with_effects: "consume q (with_effects new fd) = with_effects new (consume q fd)"
  by (simp add: consume_def with_effects_def)

lemma readResponse_loop_with_effects:
  "readResponse_loop rd (with_effects new fd) =
     (case readResponse_loop rd fd of (c, fd') \<Rightarrow> (c, with_effects new fd'))"
proof (cases "device fd")
  case None
  then have "device (with_effects new fd) = None" by (simp add: with_effects_def)
  with None show ?thesis by (simp add: readResponse_loop_unbound)
next
  case (Some d)
  define q where "q = inQueue d"
  from Some q_def show ?thesis
  proof (induction q arbitrary: rd fd d)
    case Nil
    then have "device (with_effects new fd) = Some d" by (simp add: with_effects_def)
    with Nil show ?case by (simp add: readResponse_loop_empty)
  next
    case (Cons x q)
    have dev': "device (with_effects new fd) = Some d"
      using Cons.prems(1) by (simp add: with_effects_def)
    show ?case
    proof (cases x)
      case (Inl e)
      with Cons.prems dev' show ?thesis
        by (simp add: readResponse_loop_reject [of _ d e q] consume_with_effects)
    next
      case (Inr data)
      have dq: "inQueue d = Inr data # q" using Cons.prems(2) Inr by simp
      have dev: "device (consume q fd) = Some (d\<lparr>inQueue := q\<rparr>)"
        using Cons.prems(1) by (simp add: device_consume)
      have ih: "readResponse_loop rd' (with_effects new (consume q fd)) =
          (case readResponse_loop rd' (consume q fd) of (c, fd') \<Rightarrow> (c, with_effects new fd'))"
        for rd'
        using Cons.IH [OF dev, of rd'] by simp
      show ?thesis
        by (simp add: readResponse_loop_packet [OF Cons.prems(1) dq]
            readResponse_loop_packet [OF dev' dq] consume_with_effects ih)
    qed
  qed
qed

lemma readResponse_with_effects:
  "readResponse (with_effects new fd) =
     (case readResponse fd of (c, fd') \<Rightarrow> (c, with_effects new fd'))"
  by (simp add: readResponse_def readResponse_loop_with_effects)

lemma readResponse_loop_bound_client:
  "readResponse_loop rd (bound_client (Inr data # rest) fs) =
    (if respStatus data = js ''OKAY'' then
       (Return (rd\<lparr>text' := text' rd @ respMessage data\<rparr>), bound_client rest fs)
     else if respStatus data = js ''INFO'' then
       readResponse_loop (rd\<lparr>text' := text' rd @ respMessage data @ js ''\<newline>''\<rparr>)
         (bound_client rest fs)
     else if respStatus data = js ''DATA'' then
       (Return (rd\<lparr>dataSize := Some (respMessage data)\<rparr>), bound_client rest fs)
     else (Throw (FastbootError (respStatus data) (respMessage data)), bound_client rest fs))"
  by (subst readResponse_loop_packet [OF device_bound_client, of _ _ data rest])
     (simp_all add: consume_bound_client)

lemma readResponse_loop_bound_client_empty:
  "readResponse_loop rd (bound_client [] fs) = (Pending, bound_client [] fs)"
  by (rule readResponse_loop_empty [OF device_bound_client]) simp

lemma runCommand_with_effects_bound_client:
  assumes "length cmd \<le> 64"
  shows "runCommand cmd (with_effects efs (bound_client q [])) =
     (case readResponse (bound_client q []) of
        (c, fd') \<Rightarrow>
          (c, with_effects (efs @ [TransferOut (Some 2) (TextEncoder_encode cmd) None]) fd'))"
proof -
  let ?fd = "with_effects efs (bound_client q [])"
  let ?d = "\<lparr>configurations = [], openResult = None, resetResult = None,
        selectConfigurationResult = None, claimInterfaceResult = None,
        inQueue = q, outFaults = []\<rparr>"
  have dev: "device ?fd = Some ?d" by (simp add: with_effects_def bound_client_def)
  have st: "with_effects [TransferOut (epOut ?fd) (TextEncoder_encode cmd) None] (advance_out 1 ?fd)
      = with_effects (efs @ [TransferOut (Some 2) (TextEncoder_encode cmd) None])
          (bound_client q [])"
    by (simp add: with_effects_def advance_out_def bound_client_def)
  have "runCommand cmd ?fd =
      readResponse (with_effects [TransferOut (epOut ?fd) (TextEncoder_encode cmd) None]
        (advance_out 1 ?fd))"
    by (simp add: runCommand_bound [OF assms dev] next_outcome_def)
  also have "\<dots> = readResponse
      (with_effects (efs @ [TransferOut (Some 2) (TextEncoder_encode cmd) None])
        (bound_client q []))"
    by (simp only: st)
  finally show ?thesis by (simp only: readResponse_with_effects)
qed

lemma sendRawPayload_with_effects_bound_client:
  "sendRawPayload buffer (with_effects efs (bound_client q [])) =
     Some (Return (),
       with_effects
         (efs @ concat (map (round_effects (Some 2) buffer None) [0..<chunk_count buffer])
          @ [Progress 1])
         (bound_client q []))"
proof -
  let ?fd = "with_effects efs (bound_client q [])"
  let ?d = "\<lparr>configurations = [], openResult = None, resetResult = None,
        selectConfigurationResult = None, claimInterfaceResult = None,
        inQueue = q, outFaults = []\<rparr>"
  have dev: "device ?fd = Some ?d" by (simp add: with_effects_def bound_client_def)
  show ?thesis
    by (subst sendRawPayload_ok [OF dev])
       (simp_all add: with_effects_def advance_out_def bound_client_def)
qed

lemma download_command_256: "download_command 256 = js ''download:00000100''"
  by (simp add: download_command_def hex8_def hex_digit_def js_def)

lemma runCommand_download_256:
  "runCommand (download_command 256) (bound_client q []) =
     (case readResponse (bound_client q []) of
        (c, fd') \<Rightarrow>
          (c, with_effects [TransferOut (Some 2) (ascii ''download:00000100'') None] fd'))"
proof -
  have enc: "TextEncoder_encode (js ''download:00000100'') = ascii ''download:00000100''"
    by (rule TextEncoder_encode_js) simp
  have "length (download_command 256) \<le> 64" by (simp add: length_download_command)
  from runCommand_with_effects_bound_client [OF this, of "[]" q]
  show ?thesis by (simp add: with_effects_Nil download_command_256 enc)
qed

theorem download_negotiation_witness:
  "padStart (toString16 256) 8 (of_char CHR ''0'') = js ''00000100''
   \<and> length (TextEncoder_encode (download_command 256)) = 17
   \<and> effects (snd (runCommand (download_command 256) (bound_client [Inr (ascii ''OKAY'')] []))) =
       [TransferOut (Some 2) (ascii ''download:00000100'') None]
   \<and> unlockBootloader_download (replicate 256 7)
        (bound_client [Inr (ascii ''FAILnot allowed'')] []) =
       Some (Throw (FastbootError (js ''FAIL'') (js ''not allowed'')),
         with_effects [TransferOut (Some 2) (ascii ''download:00000100'') None]
           (bound_client [] []))
   \<and> unlockBootloader_download (replicate 256 7) (bound_client [] []) =
       Some (Pending,
         with_effects [TransferOut (Some 2) (ascii ''download:00000100'') None]
           (bound_client [] []))
   \<and> unlockBootloader_download (replicate 256 7) (bound_client [Inr (ascii ''OKAY'')] []) =
       Some (Throw (FastbootError (js ''FAIL'')
               (js ''Unexpected response to download command: '')),
         with_effects [TransferOut (Some 2) (ascii ''download:00000100'') None]
           (bound_client [] []))
   \<and> unlockBootloader_download (replicate 256 7)
        (bound_client [Inr (ascii ''DATA00000200'')] []) =
       Some (Throw (FastbootError (js ''FAIL'')
               (js ''Bootloader wants 256 bytes, requested to send undefined bytes'')),
         with_effects [TransferOut (Some 2) (ascii ''download:00000100'') None]
           (bound_client [] []))
   \<and> unlockBootloader_download (replicate 256 7)
        (bound_client [Inr (ascii ''DATA00000100''), Inr (ascii ''OKAY''),
                       Inr (ascii ''OKAYunlocked'')] []) =
       Some (Return (),
         with_effects
           [TransferOut (Some 2) (ascii ''download:00000100'') None,
            Progress 0,
            TransferOut (Some 2) (replicate 256 7) None,
            Progress 1,
            TransferOut (Some 2) (ascii ''flashing unlock_bootloader'') None]
           (bound_client [] []))
   \<and> unlockBootloader_download (replicate 4294967296 7) (bound_client [] []) =
       Some (Throw (FastbootError (js ''FAIL'')
               (js ''Transfer size overflow: 100000000 is more than 8 digits'')),
         bound_client [] [])"
proof -
  note claim = download_negotiation
  let ?B = "replicate 256 (7 :: byte)"
  let ?T = "TransferOut (Some 2) (ascii ''download:00000100'') None"
  have small: "length ?B < 2 ^ 32" by simp
  have len: "length ?B = 256" by simp
  note read = readResponse_def readResponse_loop_bound_client
    readResponse_loop_bound_client_empty respStatus_ascii respMessage_ascii
  have inst: "padStart (toString16 (length ?B)) 8 (of_char CHR ''0'') = hex8 (length ?B) \<and>
      length (TextEncoder_encode (download_command (length ?B))) = 17 \<and>
      effects (snd (runCommand (download_command (length ?B)) (bound_client q []))) =
        effects (bound_client q []) @ [TransferOut (epOut (bound_client q []))
          (TextEncoder_encode (download_command (length ?B)))
          (next_outcome \<lparr>configurations = [], openResult = None, resetResult = None,
             selectConfigurationResult = None, claimInterfaceResult = None,
             inQueue = q, outFaults = []\<rparr>)] \<and>
      (\<forall>e fd1.
         runCommand (download_command (length ?B)) (bound_client q []) = (Throw e, fd1) \<longrightarrow>
         unlockBootloader_download ?B (bound_client q []) = Some (Throw e, fd1)) \<and>
      (\<forall>fd1.
         runCommand (download_command (length ?B)) (bound_client q []) = (Pending, fd1) \<longrightarrow>
         unlockBootloader_download ?B (bound_client q []) = Some (Pending, fd1)) \<and>
      (\<forall>r fd1.
         runCommand (download_command (length ?B)) (bound_client q []) = (Return r, fd1) \<and>
         dataSize r = None \<longrightarrow>
         unlockBootloader_download ?B (bound_client q []) =
           Some (Throw (FastbootError (js ''FAIL'')
                   (js ''Unexpected response to download command: '' @ text' r)),
                 fd1)) \<and>
      (\<forall>r fd1 hex.
         runCommand (download_command (length ?B)) (bound_client q []) = (Return r, fd1) \<and>
         dataSize r = Some hex \<and> parseInt16 hex \<noteq> Some (int (length ?B)) \<longrightarrow>
         unlockBootloader_download ?B (bound_client q []) =
           Some (Throw (FastbootError (js ''FAIL'')
                   (js ''Bootloader wants '' @ toString10 (length ?B)
                    @ js '' bytes, requested to send undefined bytes'')),
                 fd1)) \<and>
      (\<forall>r fd1 hex.
         runCommand (download_command (length ?B)) (bound_client q []) = (Return r, fd1) \<and>
         dataSize r = Some hex \<and> parseInt16 hex = Some (int (length ?B)) \<longrightarrow>
         unlockBootloader_download ?B (bound_client q []) =
           and_then (sendRawPayload ?B fd1)
             (\<lambda>_ fd2.
                and_then (Some (readResponse fd2))
                  (\<lambda>_ fd3.
                     and_then (Some (runCommand (js ''flashing unlock_bootloader'') fd3))
                       (\<lambda>_ fd4. Some (Return (), fd4)))))" for q
    by (rule claim [THEN conjunct1, rule_format]) (simp add: device_bound_client)
  have 1: "padStart (toString16 256) 8 (of_char CHR ''0'') = js ''00000100''"
    using inst [of "[]", THEN conjunct1]
    by (simp add: hex8_def hex_digit_def js_def)
  have 2: "length (TextEncoder_encode (download_command 256)) = 17"
    using inst [of "[]", THEN conjunct2, THEN conjunct1] by simp
  have 3: "effects (snd (runCommand (download_command 256) (bound_client [Inr (ascii ''OKAY'')] [])))
      = [?T]"
  proof -
    have enc: "TextEncoder_encode (js ''download:00000100'') = ascii ''download:00000100''"
      by (rule TextEncoder_encode_js) simp
    show ?thesis
      using inst [of "[Inr (ascii ''OKAY'')]", THEN conjunct2, THEN conjunct2, THEN conjunct1]
      by (simp add: download_command_256 enc next_outcome_def epOut_bound_client)
         (simp add: bound_client_def)
  qed
  have 4: "unlockBootloader_download ?B (bound_client [Inr (ascii ''FAILnot allowed'')] []) =
       Some (Throw (FastbootError (js ''FAIL'') (js ''not allowed'')),
         with_effects [?T] (bound_client [] []))"
    by (rule inst [THEN conjunct2, THEN conjunct2, THEN conjunct2, THEN conjunct1, rule_format])
       (simp add: runCommand_download_256 read js_def)
  have 5: "unlockBootloader_download ?B (bound_client [] []) =
       Some (Pending, with_effects [?T] (bound_client [] []))"
    by (rule inst [THEN conjunct2, THEN conjunct2, THEN conjunct2, THEN conjunct2,
          THEN conjunct1, rule_format])
       (simp add: runCommand_download_256 read)
  have 6: "unlockBootloader_download ?B (bound_client [Inr (ascii ''OKAY'')] []) =
       Some (Throw (FastbootError (js ''FAIL'')
               (js ''Unexpected response to download command: '')),
         with_effects [?T] (bound_client [] []))"
    using inst [of "[Inr (ascii ''OKAY'')]", THEN conjunct2, THEN conjunct2, THEN conjunct2,
        THEN conjunct2, THEN conjunct2, THEN conjunct1, rule_format,
        of "\<lparr>text' = [], dataSize = None\<rparr>" "with_effects [?T] (bound_client [] [])"]
    by (simp add: runCommand_download_256 read js_def)
  have 7: "unlockBootloader_download ?B (bound_client [Inr (ascii ''DATA00000200'')] []) =
       Some (Throw (FastbootError (js ''FAIL'')
               (js ''Bootloader wants 256 bytes, requested to send undefined bytes'')),
         with_effects [?T] (bound_client [] []))"
  proof -
    have p: "parseInt16 (js ''00000200'') = Some 512"
      by (simp add: parseInt16_def js_def is_white_space_def is_hex_digit_def hex_value_def
          Let_def)
    have t: "toString10 256 = js ''256''" by (simp add: toString10.simps js_def)
    have "unlockBootloader_download ?B (bound_client [Inr (ascii ''DATA00000200'')] []) =
           Some (Throw (FastbootError (js ''FAIL'')
                   (js ''Bootloader wants '' @ toString10 (length ?B)
                    @ js '' bytes, requested to send undefined bytes'')),
                 with_effects [?T] (bound_client [] []))"
      by (rule inst [THEN conjunct2, THEN conjunct2, THEN conjunct2, THEN conjunct2,
            THEN conjunct2, THEN conjunct2, THEN conjunct1, rule_format,
            of _ "\<lparr>text' = [], dataSize = Some (js ''00000200'')\<rparr>" _ "js ''00000200''"])
         (simp add: runCommand_download_256 read p, simp add: js_def)
    then show ?thesis by (simp add: t) (simp add: js_def)
  qed
  have 8: "unlockBootloader_download ?B
        (bound_client [Inr (ascii ''DATA00000100''), Inr (ascii ''OKAY''),
                       Inr (ascii ''OKAYunlocked'')] []) =
       Some (Return (),
         with_effects
           [?T, Progress 0, TransferOut (Some 2) ?B None, Progress 1,
            TransferOut (Some 2) (ascii ''flashing unlock_bootloader'') None]
           (bound_client [] []))"
  proof -
    let ?fd1 = "with_effects [?T] (bound_client [Inr (ascii ''OKAY''), Inr (ascii ''OKAYunlocked'')] [])"
    have p: "parseInt16 (js ''00000100'') = Some 256"
      by (simp add: parseInt16_def js_def is_white_space_def is_hex_digit_def hex_value_def
          Let_def)
    have enc: "TextEncoder_encode (js ''flashing unlock_bootloader'') =
        ascii ''flashing unlock_bootloader''"
      by (rule TextEncoder_encode_js) simp
    have short: "length (js ''flashing unlock_bootloader'') \<le> 64" by (simp add: js_def)
    have n: "chunk_count ?B = 1" by (simp add: chunk_count_def BULK_TRANSFER_SIZE_def)
    have c: "chunk_of ?B 0 = ?B"
      by (simp add: chunk_of_def slice_def BULK_TRANSFER_SIZE_def Let_def)
    have send: "sendRawPayload ?B ?fd1 =
        Some (Return (),
          with_effects [?T, Progress 0, TransferOut (Some 2) ?B None, Progress 1]
            (bound_client [Inr (ascii ''OKAY''), Inr (ascii ''OKAYunlocked'')] []))"
      by (simp add: sendRawPayload_with_effects_bound_client n round_effects_def c)
    have "unlockBootloader_download ?B
        (bound_client [Inr (ascii ''DATA00000100''), Inr (ascii ''OKAY''),
                       Inr (ascii ''OKAYunlocked'')] []) =
           and_then (sendRawPayload ?B ?fd1)
             (\<lambda>_ fd2.
                and_then (Some (readResponse fd2))
                  (\<lambda>_ fd3.
                     and_then (Some (runCommand (js ''flashing unlock_bootloader'') fd3))
                       (\<lambda>_ fd4. Some (Return (), fd4))))"
      by (rule inst [THEN conjunct2, THEN conjunct2, THEN conjunct2, THEN conjunct2,
            THEN conjunct2, THEN conjunct2, THEN conjunct2, rule_format,
            of _ "\<lparr>text' = [], dataSize = Some (js ''00000100'')\<rparr>" _ "js ''00000100''"])
         (simp add: runCommand_download_256 read p, simp add: js_def)
    also have "\<dots> = Some (Return (),
         with_effects
           [?T, Progress 0, TransferOut (Some 2) ?B None, Progress 1,
            TransferOut (Some 2) (ascii ''flashing unlock_bootloader'') None]
           (bound_client [] []))"
      by (simp add: send and_then_Some readResponse_loop_with_effects read
          runCommand_with_effects_bound_client [OF short] enc)
    finally show ?thesis .
  qed
  have 9: "unlockBootloader_download (replicate 4294967296 7) (bound_client [] []) =
       Some (Throw (FastbootError (js ''FAIL'')
               (js ''Transfer size overflow: 100000000 is more than 8 digits'')),
         bound_client [] [])"
  proof -
    have t: "toString16 4294967296 = js ''100000000''"
      by (simp add: toString16.simps hex_digit_def js_def)
    show ?thesis
      using claim [THEN conjunct2, rule_format, of "replicate 4294967296 7" "bound_client [] []"]
      by (simp add: t) (simp add: js_def)
  qed
  from 1 2 3 4 5 6 7 8 9 show ?thesis by (intro conjI)
qed

end
